theory Spec2Isabelle
  imports Complex_Main "HOL-Library.Multiset" "HOL-Library.Sublist"
begin

section \<open>The letter wheel of wssgui (letter\_wheel.py)\<close>

text \<open>
  A shallow embedding of \<^verbatim>\<open>src/wssgui/letter_wheel.py\<close>. Python objects live in two
  stores (one for the tiles, one for the path items) and are named by their index there, so
  that two tiles with equal fields are still two objects. Python floats are read as real
  numbers: rounding is not part of the model. A \<^verbatim>\<open>QPainterPath\<close> is the list of the
  drawing calls made on it. The glyph rasteriser (PIL) and the hit test of the scene
  (\<^verbatim>\<open>itemAt\<close>) are outside the file: the first is a parameter of the constructor, the
  result of the second is a parameter of each pointer handler.
\<close>

subsection \<open>Data\<close>

type_synonym ref = nat

type_synonym QPointF = "real \<times> real"

datatype GlobalColor = Qt_red | Qt_green | Qt_blue

datatype path_element = moveTo QPointF | lineTo QPointF | closeSubpath

type_synonym QPainterPath = "path_element list"

text \<open>The exceptions the file can raise. \<open>InvalidArgument\<close> and \<open>AssignmentFailure\<close>
  are the two names of the specification's taxonomy; no statement of the source raises them.\<close>

datatype error = ZeroDivisionError | IndexError | KeyError | AttributeError
  | InvalidArgument | AssignmentFailure

record QPixmap =
  pm_width :: int
  pm_height :: int

text \<open>\<^verbatim>\<open>class MyQGPixmapItem\<close>. \<open>path_item\<close> is \<^verbatim>\<open>False\<close> (\<open>None\<close>) or a path item;
  \<open>offset_xy\<close> does not exist (\<open>None\<close>) before \<^verbatim>\<open>calc_position(offset=True)\<close>;
  \<open>pos\<close> is the position of the graphics item, set by \<^verbatim>\<open>setPos\<close>.\<close>

record MyQGPixmapItem =
  idx :: nat
  alpha :: char
  half_width :: real
  half_height :: real
  center_x :: real
  center_y :: real
  radius :: real
  angle :: real
  hit :: bool
  path_item :: "ref option"
  pos :: QPointF
  offset_xy :: "QPointF option"

record QGraphicsPathItem =
  item_path :: QPainterPath
  pen_color :: GlobalColor
  pen_width :: nat

text \<open>An item of the scene: a tile or a path item, by reference.\<close>

datatype QGraphicsItem = TileRef ref | PathRef ref

datatype signal = mouseOverWidget ref | mouseReleaseProc string | clearHighlight bool

record LetterAreaView =
  mouse_pressed :: bool
  selected_widgets_set :: "ref set"
  selected_widgets_list :: "ref list"
  has_highlighted :: bool
  paint_path :: QPainterPath

text \<open>\<^verbatim>\<open>class LetterArea\<close>, together with the objects it reaches: the two stores, the
  items of its scene in the order they were added, and the signals emitted so far.
  \<open>wheel\<close> is \<open>None\<close> until \<^verbatim>\<open>make_word\<close> has set the attribute.\<close>

record LetterArea =
  tiles :: "MyQGPixmapItem list"
  paths :: "QGraphicsPathItem list"
  scene :: "QGraphicsItem list"
  view :: LetterAreaView
  emitted :: "signal list"
  center :: QPointF
  area_radius :: real
  last_path_highlighted :: "ref option"
  last_path_drawn :: "ref option"
  current_path_drawn :: "ref option"
  letters :: "char \<rightharpoonup> QPixmap"
  wheel :: "ref list option"

subsection \<open>MyQGPixmapItem\<close>

text \<open>\<^verbatim>\<open>__init__(self, img, i, n, alpha, center, radius)\<close>: the division by \<open>n\<close> raises
  \<^verbatim>\<open>ZeroDivisionError\<close> when \<open>n = 0\<close>.\<close>

definition MyQGPixmapItem_init ::
  "QPixmap \<Rightarrow> nat \<Rightarrow> nat \<Rightarrow> char \<Rightarrow> QPointF \<Rightarrow> real \<Rightarrow> error + MyQGPixmapItem" where
  "MyQGPixmapItem_init img i n a c r =
     (if n = 0 then Inl ZeroDivisionError
      else Inr \<lparr> idx = i, alpha = a,
                 half_width = real_of_int (pm_width img) / 2,
                 half_height = real_of_int (pm_height img) / 2,
                 center_x = fst c, center_y = snd c,
                 radius = r,
                 angle = 2 * pi * real i / real n,
                 hit = False, path_item = None,
                 pos = (0, 0), offset_xy = None \<rparr>)"

text \<open>\<^verbatim>\<open>calc_position(self, r=False, offset=False)\<close>. The default \<^verbatim>\<open>r=False\<close> is \<open>None\<close>;
  \<^verbatim>\<open>if not r\<close> also holds for \<open>r = 0\<close>.\<close>

definition calc_position :: "MyQGPixmapItem \<Rightarrow> real option \<Rightarrow> bool \<Rightarrow> MyQGPixmapItem" where
  "calc_position self r_arg offset =
     (let r = (case r_arg of None \<Rightarrow> radius self
                           | Some r' \<Rightarrow> if r' = 0 then radius self else r');
          x = center_x self + r * cos (angle self);
          x = (if \<not> offset then x - half_width self else x);
          y = center_y self + r * sin (angle self);
          y = (if \<not> offset then y - half_height self else y)
      in if \<not> offset then self\<lparr>pos := (x, y)\<rparr>
         else self\<lparr>offset_xy := Some (x, y)\<rparr>)"

subsection \<open>LetterArea: construction and make\_word\<close>

definition LetterAreaView_init :: LetterAreaView where
  "LetterAreaView_init =
     \<lparr> mouse_pressed = False, selected_widgets_set = {}, selected_widgets_list = [],
       has_highlighted = False, paint_path = [] \<rparr>"

definition alphabet :: string where
  "alphabet = ''ABCDEFGHIJKLMNOPQRSTUVWXYZ''"

text \<open>\<^verbatim>\<open>get_letters\<close>: one pixmap for each capital letter. \<open>create_letter_img\<close> is the
  rasteriser, which the model takes as a parameter.\<close>

definition get_letters :: "(char \<Rightarrow> QPixmap) \<Rightarrow> (char \<rightharpoonup> QPixmap)" where
  "get_letters create_letter_img = map_of (map (\<lambda>a. (a, create_letter_img a)) alphabet)"

definition LetterArea_init :: "(char \<Rightarrow> QPixmap) \<Rightarrow> LetterArea" where
  "LetterArea_init create_letter_img =
     \<lparr> tiles = [], paths = [], scene = [], view = LetterAreaView_init, emitted = [],
       center = (50, 50), area_radius = 80,
       last_path_highlighted = None, last_path_drawn = None, current_path_drawn = None,
       letters = get_letters create_letter_img, wheel = None \<rparr>"

text \<open>The list comprehension of \<^verbatim>\<open>make_word\<close>: for each \<open>(i, alpha)\<close> of
  \<^verbatim>\<open>enumerate(word)\<close>, the lookup \<^verbatim>\<open>self.letters[alpha]\<close> (a \<^verbatim>\<open>KeyError\<close> when the
  letter has no pixmap), then the constructor.\<close>

fun make_letters ::
  "(char \<rightharpoonup> QPixmap) \<Rightarrow> QPointF \<Rightarrow> real \<Rightarrow> nat \<Rightarrow> nat \<Rightarrow> string \<Rightarrow> error + MyQGPixmapItem list" where
  "make_letters ls c r n i [] = Inr []"
| "make_letters ls c r n i (a # as) =
     (case ls a of
        None \<Rightarrow> Inl KeyError
      | Some img \<Rightarrow>
          (case MyQGPixmapItem_init img i n a c r of
             Inl e \<Rightarrow> Inl e
           | Inr t \<Rightarrow>
               (case make_letters ls c r n (Suc i) as of
                  Inl e \<Rightarrow> Inl e
                | Inr ts \<Rightarrow> Inr (t # ts))))"

text \<open>The body of the first loop of \<^verbatim>\<open>make_word\<close>, for one letter.\<close>

definition place_letter :: "real \<Rightarrow> MyQGPixmapItem \<Rightarrow> MyQGPixmapItem" where
  "place_letter r letter =
     calc_position (calc_position letter None False) (Some (r - 15)) True"

text \<open>The outline: \<^verbatim>\<open>moveTo\<close> the first anchor, \<^verbatim>\<open>lineTo\<close> every anchor, close.
  Reading \<^verbatim>\<open>offset_xy\<close> of a tile that has none is an \<^verbatim>\<open>AttributeError\<close>.\<close>

fun line_to_all :: "MyQGPixmapItem list \<Rightarrow> error + QPainterPath" where
  "line_to_all [] = Inr []"
| "line_to_all (t # ts) =
     (case offset_xy t of
        None \<Rightarrow> Inl AttributeError
      | Some p \<Rightarrow> (case line_to_all ts of Inl e \<Rightarrow> Inl e | Inr es \<Rightarrow> Inr (lineTo p # es)))"

text \<open>\<^verbatim>\<open>make_word(self, word)\<close>. An exception leaves the widget as it was: the tiles are
  added to the scene only in a loop that does not run when \<^verbatim>\<open>letters[0]\<close> fails.\<close>

definition make_word :: "LetterArea \<Rightarrow> string \<Rightarrow> (error \<times> LetterArea) + LetterArea" where
  "make_word self word =
     (case make_letters (letters self) (center self) (area_radius self) (length word) 0 word of
        Inl e \<Rightarrow> Inl (e, self)
      | Inr ls0 \<Rightarrow>
          (let ls = map (place_letter (area_radius self)) ls0;
               refs = [length (tiles self) ..< length (tiles self) + length ls];
               self1 = self\<lparr> tiles := tiles self @ ls, scene := scene self @ map TileRef refs \<rparr>
           in case ls of
                [] \<Rightarrow> Inl (IndexError, self1)
              | l0 # _ \<Rightarrow>
                  (case offset_xy l0 of
                     None \<Rightarrow> Inl (AttributeError, self1)
                   | Some p0 \<Rightarrow>
                       (case line_to_all ls of
                          Inl e \<Rightarrow> Inl (e, self1)
                        | Inr es \<Rightarrow>
                            Inr (self1\<lparr>
                                   paths := paths self1 @
                                     [\<lparr> item_path = moveTo p0 # es @ [closeSubpath],
                                        pen_color = Qt_red, pen_width = 3 \<rparr>],
                                   scene := scene self1 @ [PathRef (length (paths self1))],
                                   wheel := Some refs \<rparr>)))))"

subsection \<open>LetterArea: word\_path and deselect\<close>

text \<open>\<^verbatim>\<open>deselect(self)\<close>: the stored replay highlight leaves the scene.\<close>

definition deselect :: "LetterArea \<Rightarrow> LetterArea" where
  "deselect self =
     (case last_path_highlighted self of
        None \<Rightarrow> self
      | Some p \<Rightarrow> self\<lparr> scene := removeAll (PathRef p) (scene self),
                        last_path_highlighted := None \<rparr>)"

text \<open>The inner loop of \<^verbatim>\<open>word_path\<close>: the first tile of \<open>tmp_letters\<close> with the
  letter \<open>w\<close> whose \<open>hit\<close> flag is not set.\<close>

definition first_unused :: "MyQGPixmapItem list \<Rightarrow> ref list \<Rightarrow> char \<Rightarrow> ref option" where
  "first_unused ts tmp_letters w =
     find (\<lambda>x. alpha (ts ! x) = w \<and> \<not> hit (ts ! x)) tmp_letters"

text \<open>The outer loop: the tile found is marked and appended to \<open>selected\<close>; a letter
  for which none is found is passed over.\<close>

fun assign ::
  "MyQGPixmapItem list \<Rightarrow> ref list \<Rightarrow> string \<Rightarrow> ref list \<Rightarrow> MyQGPixmapItem list \<times> ref list" where
  "assign ts tmp_letters [] selected = (ts, selected)"
| "assign ts tmp_letters (w # ws) selected =
     (case first_unused ts tmp_letters w of
        None \<Rightarrow> assign ts tmp_letters ws selected
      | Some x \<Rightarrow> assign (ts[x := (ts ! x)\<lparr>hit := True\<rparr>]) tmp_letters ws (selected @ [x]))"

text \<open>\<^verbatim>\<open>for x in self.wheel: x.hit = False\<close>\<close>

definition reset_hits :: "MyQGPixmapItem list \<Rightarrow> ref list \<Rightarrow> MyQGPixmapItem list" where
  "reset_hits ts refs = fold (\<lambda>x ts'. ts'[x := (ts' ! x)\<lparr>hit := False\<rparr>]) refs ts"

text \<open>\<^verbatim>\<open>word_path(self, word)\<close>. \<^verbatim>\<open>selected[0]\<close> is an \<^verbatim>\<open>IndexError\<close> when nothing
  was selected; an exception carries the widget as it is at the raise.\<close>

definition word_path :: "LetterArea \<Rightarrow> string \<Rightarrow> (error \<times> LetterArea) + LetterArea" where
  "word_path self word =
     (let self1 = (if last_path_highlighted self \<noteq> None then deselect self else self)
      in case wheel self1 of
           None \<Rightarrow> Inl (AttributeError, self1)
         | Some tmp_letters \<Rightarrow>
             (let (ts, selected) = assign (tiles self1) tmp_letters word [];
                  self2 = self1\<lparr>tiles := ts\<rparr>
              in case selected of
                   [] \<Rightarrow> Inl (IndexError, self2)
                 | s0 # rest \<Rightarrow>
                     (case offset_xy (ts ! s0) of
                        None \<Rightarrow> Inl (AttributeError, self2)
                      | Some p0 \<Rightarrow>
                          (case line_to_all (map (\<lambda>x. ts ! x) rest) of
                             Inl e \<Rightarrow> Inl (e, self2)
                           | Inr es \<Rightarrow>
                               Inr (self2\<lparr>
                                      paths := paths self2 @
                                        [\<lparr> item_path = moveTo p0 # es,
                                           pen_color = Qt_blue, pen_width = 3 \<rparr>],
                                      scene := scene self2 @ [PathRef (length (paths self2))],
                                      tiles := reset_hits ts tmp_letters,
                                      last_path_highlighted := Some (length (paths self2)),
                                      view := (view self2)\<lparr>has_highlighted := True\<rparr> \<rparr>)))))"

subsection \<open>LetterAreaView: the pointer handlers\<close>

text \<open>\<^verbatim>\<open>mousePressEvent(self, event)\<close>. \<open>widget\<close> is the result of
  \<^verbatim>\<open>self.itemAt(event.pos())\<close>, which the source computes in the second branch only.
  The slot connected to the signal \<^verbatim>\<open>clearHighlight\<close> is the parameter
  \<open>on_clearHighlight\<close>: the connection is made outside this file, and the handler runs the
  slot where the signal is emitted. The specification has such a press clear the replay
  highlight, which is what \<^verbatim>\<open>LetterArea.deselect\<close> does.\<close>

definition mousePressEvent ::
  "(LetterArea \<Rightarrow> LetterArea) \<Rightarrow> LetterArea \<Rightarrow> QGraphicsItem option \<Rightarrow> LetterArea" where
  "mousePressEvent on_clearHighlight self widget =
     (if has_highlighted (view self) then
        (let self1 = self\<lparr>view := (view self)\<lparr>has_highlighted := False\<rparr>\<rparr>;
             self2 = on_clearHighlight (self1\<lparr>emitted := emitted self1 @ [clearHighlight True]\<rparr>)
         in self2\<lparr>view := (view self2)\<lparr>mouse_pressed := False\<rparr>\<rparr>)
      else
        (let self1 = self\<lparr>view := (view self)\<lparr>mouse_pressed := True\<rparr>\<rparr>
         in case widget of
              Some (TileRef w) \<Rightarrow>
                (if w \<notin> selected_widgets_set (view self1) then
                   self1\<lparr> view := (view self1)\<lparr> paint_path := [],
                                                selected_widgets_set := {w},
                                                selected_widgets_list := [w] \<rparr>,
                          emitted := emitted self1 @ [mouseOverWidget w] \<rparr>
                 else self1)
            | _ \<Rightarrow> self1))"

text \<open>The loop over \<^verbatim>\<open>enumerate(self.selected_widgets_list)\<close> in \<^verbatim>\<open>mouseMoveEvent\<close>:
  \<^verbatim>\<open>moveTo\<close> for the first tile, \<^verbatim>\<open>lineTo\<close> for the others, appended to the path.\<close>

fun trace_selection ::
  "MyQGPixmapItem list \<Rightarrow> QPainterPath \<Rightarrow> nat \<Rightarrow> ref list
     \<Rightarrow> (error \<times> QPainterPath) + QPainterPath" where
  "trace_selection ts pp i [] = Inr pp"
| "trace_selection ts pp i (item # items) =
     (case offset_xy (ts ! item) of
        None \<Rightarrow> Inl (AttributeError, pp)
      | Some p \<Rightarrow>
          trace_selection ts (pp @ [if i = 0 then moveTo p else lineTo p]) (Suc i) items)"

text \<open>\<^verbatim>\<open>mouseMoveEvent(self, event)\<close>. After the loop \<^verbatim>\<open>item\<close> is the last tile of the
  selection; the new path item is stored in its \<open>path_item\<close> and added to the scene.\<close>

definition mouseMoveEvent ::
  "LetterArea \<Rightarrow> QGraphicsItem option \<Rightarrow> (error \<times> LetterArea) + LetterArea" where
  "mouseMoveEvent self widget =
     (if mouse_pressed (view self) then
        (let self1 =
               (case widget of
                  Some (TileRef w) \<Rightarrow>
                    (if w \<notin> selected_widgets_set (view self) then
                       self\<lparr> view := (view self)\<lparr>
                                 selected_widgets_list := selected_widgets_list (view self) @ [w],
                                 selected_widgets_set := insert w (selected_widgets_set (view self)) \<rparr>,
                             emitted := emitted self @ [mouseOverWidget w] \<rparr>
                     else self)
                | _ \<Rightarrow> self);
             sel = selected_widgets_list (view self1)
         in if length sel > 1 then
              (case trace_selection (tiles self1) (paint_path (view self1)) 0 sel of
                 Inl (e, pp) \<Rightarrow> Inl (e, self1\<lparr>view := (view self1)\<lparr>paint_path := pp\<rparr>\<rparr>)
               | Inr pp \<Rightarrow>
                   (let item = last sel;
                        p = length (paths self1)
                    in Inr (self1\<lparr>
                              view := (view self1)\<lparr>paint_path := pp\<rparr>,
                              paths := paths self1 @
                                [\<lparr> item_path = pp, pen_color = Qt_green, pen_width = 3 \<rparr>],
                              tiles := (tiles self1)[item := (tiles self1 ! item)\<lparr>path_item := Some p\<rparr>],
                              scene := scene self1 @ [PathRef p] \<rparr>)))
            else Inr self1)
      else Inr self)"

text \<open>The test of \<^verbatim>\<open>mouseReleaseEvent\<close> on an item of the scene: a path item with a
  green pen.\<close>

fun is_green_path :: "QGraphicsPathItem list \<Rightarrow> QGraphicsItem \<Rightarrow> bool" where
  "is_green_path ps (PathRef p) = (pen_color (ps ! p) = Qt_green)"
| "is_green_path ps (TileRef _) = False"

text \<open>\<^verbatim>\<open>mouseReleaseEvent(self, event)\<close>\<close>

definition mouseReleaseEvent :: "LetterArea \<Rightarrow> LetterArea" where
  "mouseReleaseEvent self =
     (let self1 = self\<lparr>scene := filter (\<lambda>item. \<not> is_green_path (paths self) item) (scene self)\<rparr>;
          word = map (\<lambda>x. alpha (tiles self1 ! x)) (selected_widgets_list (view self1))
      in self1\<lparr> emitted := emitted self1 @ [mouseReleaseProc word],
                view := (view self1)\<lparr> selected_widgets_set := {},
                                       selected_widgets_list := [],
                                       mouse_pressed := False,
                                       paint_path := [] \<rparr> \<rparr>)"

subsection \<open>Sequences of pointer events\<close>

text \<open>The moves of one gesture, delivered in order; an exception in a handler ends the
  run. Each move carries the item under the pointer.\<close>

fun moves :: "LetterArea \<Rightarrow> QGraphicsItem option list \<Rightarrow> (error \<times> LetterArea) + LetterArea" where
  "moves self [] = Inr self"
| "moves self (widget # widgets) =
     (case mouseMoveEvent self widget of
        Inl e \<Rightarrow> Inl e
      | Inr self' \<Rightarrow> moves self' widgets)"

subsection \<open>Notions used in the statements\<close>

text \<open>The widget after a call, and the exception the call raised.\<close>

definition state_of :: "('e \<times> 's) + 's \<Rightarrow> 's" where
  "state_of r = (case r of Inl (e, s) \<Rightarrow> s | Inr s \<Rightarrow> s)"


text \<open>Every tile of the store has its anchor, as every tile made by \<^verbatim>\<open>make_word\<close> has.\<close>

definition placed :: "LetterArea \<Rightarrow> bool" where
  "placed self \<longleftrightarrow> (\<forall>t \<in> set (tiles self). offset_xy t \<noteq> None)"

text \<open>A loaded wheel: the attribute \<open>wheel\<close> is set to distinct tiles of the store, each
  with its anchor and with its \<open>hit\<close> flag down, as \<^verbatim>\<open>make_word\<close> leaves them.\<close>

definition loaded :: "LetterArea \<Rightarrow> ref list \<Rightarrow> bool" where
  "loaded self tmp_letters \<longleftrightarrow>
     wheel self = Some tmp_letters \<and> distinct tmp_letters \<and>
     (\<forall>x \<in> set tmp_letters.
        x < length (tiles self) \<and> \<not> hit (tiles self ! x) \<and> offset_xy (tiles self ! x) \<noteq> None)"

text \<open>Every path item of the scene is in the store.\<close>

definition scene_ok :: "LetterArea \<Rightarrow> bool" where
  "scene_ok self \<longleftrightarrow> (\<forall>p. PathRef p \<in> set (scene self) \<longrightarrow> p < length (paths self))"

text \<open>The state of a drag: the button is down, the set and the list of the selection agree,
  and the selected tiles exist and have an anchor.\<close>

definition dragging :: "LetterArea \<Rightarrow> bool" where
  "dragging self \<longleftrightarrow>
     mouse_pressed (view self) \<and>
     selected_widgets_set (view self) = set (selected_widgets_list (view self)) \<and>
     distinct (selected_widgets_list (view self)) \<and>
     (\<forall>x \<in> set (selected_widgets_list (view self)). offset_xy (tiles self ! x) \<noteq> None)"

text \<open>The tiles among the items a sequence of moves passes over.\<close>

fun over_tiles :: "QGraphicsItem option list \<Rightarrow> ref list" where
  "over_tiles [] = []"
| "over_tiles (Some (TileRef w) # widgets) = w # over_tiles widgets"
| "over_tiles (_ # widgets) = over_tiles widgets"

text \<open>The distinct elements of a list in the order of their first occurrence.\<close>

definition distinct_visits :: "ref list \<Rightarrow> ref list" where
  "distinct_visits xs = rev (remdups (rev xs))"

text \<open>The polyline through a list of points, and the anchors of a list of tiles.\<close>

fun polyline :: "QPointF list \<Rightarrow> QPainterPath" where
  "polyline [] = []"
| "polyline (p # ps) = moveTo p # map lineTo ps"

definition anchors :: "MyQGPixmapItem list \<Rightarrow> ref list \<Rightarrow> QPointF list" where
  "anchors ts xs = map (\<lambda>x. the (offset_xy (ts ! x))) xs"

text \<open>The letters of a list of tiles, and the green path items of the scene.\<close>

definition spelled :: "LetterArea \<Rightarrow> ref list \<Rightarrow> string" where
  "spelled self xs = map (\<lambda>x. alpha (tiles self ! x)) xs"

definition green_paths :: "LetterArea \<Rightarrow> QGraphicsItem list" where
  "green_paths self = filter (is_green_path (paths self)) (scene self)"

text \<open>The letters of the tiles of the wheel whose \<open>hit\<close> flag is down.\<close>

definition unused_letters :: "MyQGPixmapItem list \<Rightarrow> ref list \<Rightarrow> char multiset" where
  "unused_letters ts tmp =
     image_mset (\<lambda>x. alpha (ts ! x)) (filter_mset (\<lambda>x. \<not> hit (ts ! x)) (mset tmp))"

text \<open>What one move does to a widget whose button is down.\<close>

definition drawn :: "LetterArea \<Rightarrow> ref list \<Rightarrow> LetterArea" where
  "drawn self sel =
     (if 1 < length sel then
        self\<lparr> view := (view self)\<lparr>paint_path := paint_path (view self) @ polyline (anchors (tiles self) sel)\<rparr>,
              paths := paths self @
                [\<lparr> item_path = paint_path (view self) @ polyline (anchors (tiles self) sel),
                   pen_color = Qt_green, pen_width = 3 \<rparr>],
              tiles := (tiles self)[last sel := (tiles self ! last sel)\<lparr>path_item := Some (length (paths self))\<rparr>],
              scene := scene self @ [PathRef (length (paths self))] \<rparr>
      else self)"

text \<open>The widget with a replay highlight through the tiles \<open>sel\<close> drawn on it.\<close>

definition highlighted :: "LetterArea \<Rightarrow> ref list \<Rightarrow> LetterArea" where
  "highlighted self sel =
     self\<lparr> paths := paths self @
              [\<lparr> item_path = polyline (anchors (tiles self) sel),
                 pen_color = Qt_blue, pen_width = 3 \<rparr>],
           scene := scene self @ [PathRef (length (paths self))],
           last_path_highlighted := Some (length (paths self)),
           view := (view self)\<lparr>has_highlighted := True\<rparr> \<rparr>"

subsection \<open>Concrete widgets\<close>

text \<open>A rasteriser that gives every letter a pixmap of 20 by 26 pixels, and the widget
  constructed with it.\<close>

definition glyph20 :: "char \<Rightarrow> QPixmap" where
  "glyph20 a = \<lparr> pm_width = 20, pm_height = 26 \<rparr>"

definition area0 :: LetterArea where
  "area0 = LetterArea_init glyph20"

text \<open>The widget with the word CAT, TRACTOR or PIZZA loaded, and the widget with CAT
  loaded and then highlighted.\<close>

definition wheel_CAT :: LetterArea where
  "wheel_CAT = state_of (make_word area0 ''CAT'')"

definition wheel_TRACTOR :: LetterArea where
  "wheel_TRACTOR = state_of (make_word area0 ''TRACTOR'')"


definition wheel_CAT_highlighted :: LetterArea where
  "wheel_CAT_highlighted = state_of (word_path wheel_CAT ''CAT'')"

text \<open>The tiles among the items of the scene.\<close>

fun scene_tiles :: "QGraphicsItem list \<Rightarrow> ref list" where
  "scene_tiles [] = []"
| "scene_tiles (TileRef w # items) = w # scene_tiles items"
| "scene_tiles (PathRef p # items) = scene_tiles items"

text \<open>The widget with the word CAT loaded and then the word PIZZA.\<close>

definition wheel_CAT_PIZZA :: LetterArea where
  "wheel_CAT_PIZZA = state_of (make_word wheel_CAT ''PIZZA'')"

section \<open>Properties\<close>

subsection \<open>Loading a word\<close>

lemma make_letters_length:
  "make_letters ls c r n i w = Inr ts \<Longrightarrow> length ts = length w"
  by (induction w arbitrary: i ts) (auto split: option.splits sum.splits)

lemma make_letters_nth:
  "make_letters ls c r n i w = Inr ts \<Longrightarrow> k < length w \<Longrightarrow>
     \<exists>img. ls (w ! k) = Some img \<and> MyQGPixmapItem_init img (i + k) n (w ! k) c r = Inr (ts ! k)"
proof (induction w arbitrary: i ts k)
  case Nil
  then show ?case by simp
next
  case (Cons a as)
  show ?case
  proof (cases k)
    case 0
    with Cons.prems show ?thesis by (auto split: option.splits sum.splits)
  next
    case (Suc m)
    from Cons.prems obtain img t ts' where a: "ls a = Some img"
      and t: "MyQGPixmapItem_init img i n a c r = Inr t"
      and r: "make_letters ls c r n (Suc i) as = Inr ts'" and ts: "ts = t # ts'"
      by (auto split: option.splits sum.splits)
    from Cons.IH [OF r, of m] Cons.prems(2) Suc show ?thesis
      by (simp add: ts)
  qed
qed

lemma make_letters_succeeds:
  "set w \<subseteq> dom ls \<Longrightarrow> 0 < n \<Longrightarrow> \<exists>ts. make_letters ls c r n i w = Inr ts"
proof (induction w arbitrary: i)
  case Nil
  then show ?case by simp
next
  case (Cons a as)
  then obtain img where "ls a = Some img" by auto
  moreover obtain ts where "make_letters ls c r n (Suc i) as = Inr ts"
    using Cons by force
  ultimately show ?case using \<open>0 < n\<close>
    by (simp add: MyQGPixmapItem_init_def)
qed

lemma place_letter_fields:
  "idx (place_letter R t) = idx t" "alpha (place_letter R t) = alpha t"
  "angle (place_letter R t) = angle t" "hit (place_letter R t) = hit t"
  "path_item (place_letter R t) = path_item t"
  by (simp_all add: place_letter_def calc_position_def Let_def)

lemma place_letter_offset:
  "offset_xy (place_letter R t) =
     Some (center_x t + (if R - 15 = 0 then radius t else R - 15) * cos (angle t),
           center_y t + (if R - 15 = 0 then radius t else R - 15) * sin (angle t))"
  by (simp add: place_letter_def calc_position_def Let_def)

lemma place_letter_pos:
  "pos (place_letter R t) =
     (center_x t + radius t * cos (angle t) - half_width t,
      center_y t + radius t * sin (angle t) - half_height t)"
  by (simp add: place_letter_def calc_position_def Let_def)

lemma line_to_all_placed:
  "\<forall>t \<in> set ts. offset_xy t \<noteq> None \<Longrightarrow>
     line_to_all ts = Inr (map (\<lambda>t. lineTo (the (offset_xy t))) ts)"
  by (induction ts) auto

lemma make_word_Inr:
  assumes "make_letters (letters self) (center self) (area_radius self) (length w) 0 w = Inr ls0"
    and "w \<noteq> []"
  shows "make_word self w =
     Inr (self\<lparr> tiles := tiles self @ map (place_letter (area_radius self)) ls0,
                scene := scene self @ map TileRef [length (tiles self) ..< length (tiles self) + length w]
                           @ [PathRef (length (paths self))],
                paths := paths self @
                   [\<lparr> item_path = moveTo (the (offset_xy (place_letter (area_radius self) (hd ls0))))
                         # map (\<lambda>t. lineTo (the (offset_xy t))) (map (place_letter (area_radius self)) ls0)
                         @ [closeSubpath],
                      pen_color = Qt_red, pen_width = 3 \<rparr>],
                wheel := Some [length (tiles self) ..< length (tiles self) + length w] \<rparr>)"
proof -
  have len: "length ls0 = length w" using assms(1) by (rule make_letters_length)
  then obtain l0 rest where ls0: "ls0 = l0 # rest" using assms(2) by (cases ls0) auto
  have lt: "line_to_all (map (place_letter (area_radius self)) ls0)
      = Inr (map (\<lambda>t. lineTo (the (offset_xy t))) (map (place_letter (area_radius self)) ls0))"
    by (rule line_to_all_placed) (auto simp: place_letter_offset)
  show ?thesis
    unfolding make_word_def assms(1) using lt len
    by (simp add: ls0 Let_def place_letter_offset)
qed

lemma make_word_empty: "make_word self [] = Inl (IndexError, self)"
  by (simp add: make_word_def)


lemma init_Inr:
  "0 < n \<Longrightarrow> MyQGPixmapItem_init img i n a c r =
     Inr \<lparr> idx = i, alpha = a,
           half_width = real_of_int (pm_width img) / 2,
           half_height = real_of_int (pm_height img) / 2,
           center_x = fst c, center_y = snd c, radius = r,
           angle = 2 * pi * real i / real n,
           hit = False, path_item = None, pos = (0, 0), offset_xy = None \<rparr>"
  by (simp add: MyQGPixmapItem_init_def)

text \<open>Claim C6. For every index \<open>i\<close> and count \<open>n \<ge> 1\<close> the constructor succeeds, and
  \<^verbatim>\<open>calc_position()\<close> puts the tile at \<open>center + radius (cos \<theta>, sin \<theta>)\<close> with
  \<open>\<theta> = 2 \<pi> i / n\<close>, minus half the width and half the height of the glyph. The anchor
  variant \<^verbatim>\<open>calc_position(r, offset=True)\<close> uses the same angle with the radius \<open>r\<close> and
  subtracts nothing; \<^verbatim>\<open>make_word\<close> calls both, the second with the smaller radius
  \<open>radius - 15\<close>. (A radius argument of 0 counts as missing in the source, hence the
  conditions \<open>r \<noteq> 0\<close> and \<open>R \<noteq> 15\<close>; the widget's radius is 80.)\<close>

theorem calc_position_on_circle:
  assumes "1 \<le> n"
  shows "\<exists>t. MyQGPixmapItem_init img i n a c R = Inr t \<and>
           pos (calc_position t None False) =
             (fst c + R * cos (2 * pi * real i / real n) - real_of_int (pm_width img) / 2,
              snd c + R * sin (2 * pi * real i / real n) - real_of_int (pm_height img) / 2) \<and>
           (\<forall>r. r \<noteq> 0 \<longrightarrow>
              offset_xy (calc_position t (Some r) True) =
                Some (fst c + r * cos (2 * pi * real i / real n),
                      snd c + r * sin (2 * pi * real i / real n))) \<and>
           pos (place_letter R t) =
             (fst c + R * cos (2 * pi * real i / real n) - real_of_int (pm_width img) / 2,
              snd c + R * sin (2 * pi * real i / real n) - real_of_int (pm_height img) / 2) \<and>
           (R \<noteq> 15 \<longrightarrow>
              R - 15 < R \<and>
              offset_xy (place_letter R t) =
                Some (fst c + (R - 15) * cos (2 * pi * real i / real n),
                      snd c + (R - 15) * sin (2 * pi * real i / real n)))"
  using assms
  by (simp add: init_Inr calc_position_def place_letter_def Let_def)

theorem calc_position_on_circle_witness:
  "\<exists>t. MyQGPixmapItem_init (glyph20 CHR ''C'') 3 7 CHR ''C'' (50, 50) 80 = Inr t \<and>
       pos (calc_position t None False) =
         (50 + 80 * cos (2 * pi * 3 / 7) - 10, 50 + 80 * sin (2 * pi * 3 / 7) - 13) \<and>
       offset_xy (place_letter 80 t) =
         Some (50 + 65 * cos (2 * pi * 3 / 7), 50 + 65 * sin (2 * pi * 3 / 7))"
  using calc_position_on_circle [of 7 "glyph20 CHR ''C''" 3 "CHR ''C''" "(50, 50)" 80]
  by (auto simp: glyph20_def calc_position_def Let_def)


lemma make_word_tiles_nth:
  assumes ml: "make_letters (letters self) (center self) (area_radius self) (length w) 0 w = Inr ls0"
    and k: "k < length w"
  shows "(tiles self @ map (place_letter (area_radius self)) ls0) ! (length (tiles self) + k) =
           place_letter (area_radius self)
             \<lparr> idx = k, alpha = w ! k,
               half_width = real_of_int (pm_width (the (letters self (w ! k)))) / 2,
               half_height = real_of_int (pm_height (the (letters self (w ! k)))) / 2,
               center_x = fst (center self), center_y = snd (center self),
               radius = area_radius self,
               angle = 2 * pi * real k / real (length w),
               hit = False, path_item = None, pos = (0, 0), offset_xy = None \<rparr>"
proof -
  have len: "length ls0 = length w" using ml by (rule make_letters_length)
  from make_letters_nth [OF ml k] obtain img where
    img: "letters self (w ! k) = Some img"
    and t: "MyQGPixmapItem_init img (0 + k) (length w) (w ! k) (center self) (area_radius self) = Inr (ls0 ! k)"
    by blast
  have "0 < length w" using k by linarith
  from t init_Inr [OF this, of img k "w ! k" "center self" "area_radius self"]
  have "ls0 ! k = \<lparr> idx = k, alpha = w ! k,
               half_width = real_of_int (pm_width img) / 2,
               half_height = real_of_int (pm_height img) / 2,
               center_x = fst (center self), center_y = snd (center self),
               radius = area_radius self,
               angle = 2 * pi * real k / real (length w),
               hit = False, path_item = None, pos = (0, 0), offset_xy = None \<rparr>"
    by simp
  then show ?thesis using k len img by (simp add: nth_append)
qed

lemma angle_inj:
  assumes "i < n" "j < n" "i \<noteq> j"
  shows "2 * pi * real i / real n \<noteq> 2 * pi * real j / real n"
proof
  assume eq: "2 * pi * real i / real n = 2 * pi * real j / real n"
  have n: "real n \<noteq> 0" using assms(1) by simp
  from eq n have "2 * pi * real i = 2 * pi * real j" by simp
  then have "real i = real j" using pi_gt_zero by simp
  then show False using assms(3) by simp
qed

lemma angle_step:
  assumes "Suc i < n"
  shows "2 * pi * real (Suc i) / real n - 2 * pi * real i / real n = 2 * pi / real n"
proof -
  have "2 * pi * real (Suc i) / real n - 2 * pi * real i / real n
        = (2 * pi * real (Suc i) - 2 * pi * real i) / real n"
    by (simp add: diff_divide_distrib)
  also have "2 * pi * real (Suc i) - 2 * pi * real i = 2 * pi"
    by (simp add: algebra_simps)
  finally show ?thesis .
qed

lemma angle_range:
  assumes "i < n"
  shows "0 \<le> 2 * pi * real i / real n \<and> 2 * pi * real i / real n < 2 * pi"
proof
  show "0 \<le> 2 * pi * real i / real n" by simp
  have n: "0 < real n" using assms by simp
  have "real i < real n" using assms by simp
  then have "2 * pi * real i < 2 * pi * real n" using pi_gt_zero by simp
  then show "2 * pi * real i / real n < 2 * pi" using n
    by (simp add: divide_less_eq)
qed

lemma make_word_wheel:
  assumes "1 \<le> length w"
  shows "(set w \<subseteq> dom (letters self) \<longrightarrow> (\<exists>self'. make_word self w = Inr self')) \<and>
         (\<forall>self'. make_word self w = Inr self' \<longrightarrow>
            (\<exists>ws. wheel self' = Some ws \<and> length ws = length w \<and> distinct ws \<and>
               scene self' = scene self @ map TileRef ws @ [PathRef (length (paths self))] \<and>
               (\<forall>i<length w.
                  ws ! i < length (tiles self') \<and>
                  alpha (tiles self' ! (ws ! i)) = w ! i \<and>
                  idx (tiles self' ! (ws ! i)) = i \<and>
                  angle (tiles self' ! (ws ! i)) = 2 * pi * real i / real (length w) \<and>
                  0 \<le> angle (tiles self' ! (ws ! i)) \<and>
                  angle (tiles self' ! (ws ! i)) < 2 * pi) \<and>
               (\<forall>i. Suc i < length w \<longrightarrow>
                  angle (tiles self' ! (ws ! Suc i)) - angle (tiles self' ! (ws ! i))
                    = 2 * pi / real (length w)) \<and>
               (\<forall>i<length w. \<forall>j<length w. i \<noteq> j \<longrightarrow>
                  angle (tiles self' ! (ws ! i)) \<noteq> angle (tiles self' ! (ws ! j)))))"
proof (intro conjI impI allI)
  assume sub: "set w \<subseteq> dom (letters self)"
  have pos: "0 < length w" using assms by linarith
  from make_letters_succeeds [OF sub pos] obtain ls0 where
    "make_letters (letters self) (center self) (area_radius self) (length w) 0 w = Inr ls0"
    by blast
  moreover have "w \<noteq> []" using pos by simp
  ultimately show "\<exists>self'. make_word self w = Inr self'"
    using make_word_Inr by blast
next
  fix self'
  assume mw: "make_word self w = Inr self'"
  have ne: "w \<noteq> []" using assms by auto
  from mw obtain ls0 where
    ml: "make_letters (letters self) (center self) (area_radius self) (length w) 0 w = Inr ls0"
    by (auto simp: make_word_def split: sum.splits)
  have len: "length ls0 = length w" using ml by (rule make_letters_length)
  let ?ws = "[length (tiles self) ..< length (tiles self) + length w]"
  let ?ts = "tiles self @ map (place_letter (area_radius self)) ls0"
  from make_word_Inr [OF ml ne] mw
  have wh: "wheel self' = Some ?ws" and ts: "tiles self' = ?ts"
    and sc: "scene self' = scene self @ map TileRef ?ws @ [PathRef (length (paths self))]"
    by auto
  have nth: "\<And>i. i < length w \<Longrightarrow> ?ws ! i = length (tiles self) + i"
    by simp
  have ang: "\<And>i. i < length w \<Longrightarrow> angle (?ts ! (length (tiles self) + i)) = 2 * pi * real i / real (length w)"
    and alp: "\<And>i. i < length w \<Longrightarrow> alpha (?ts ! (length (tiles self) + i)) = w ! i"
    and ix: "\<And>i. i < length w \<Longrightarrow> idx (?ts ! (length (tiles self) + i)) = i"
    by (simp_all only: make_word_tiles_nth [OF ml] place_letter_fields) simp_all
  show "\<exists>ws. wheel self' = Some ws \<and> length ws = length w \<and> distinct ws \<and>
               scene self' = scene self @ map TileRef ws @ [PathRef (length (paths self))] \<and>
               (\<forall>i<length w.
                  ws ! i < length (tiles self') \<and>
                  alpha (tiles self' ! (ws ! i)) = w ! i \<and>
                  idx (tiles self' ! (ws ! i)) = i \<and>
                  angle (tiles self' ! (ws ! i)) = 2 * pi * real i / real (length w) \<and>
                  0 \<le> angle (tiles self' ! (ws ! i)) \<and>
                  angle (tiles self' ! (ws ! i)) < 2 * pi) \<and>
               (\<forall>i. Suc i < length w \<longrightarrow>
                  angle (tiles self' ! (ws ! Suc i)) - angle (tiles self' ! (ws ! i))
                    = 2 * pi / real (length w)) \<and>
               (\<forall>i<length w. \<forall>j<length w. i \<noteq> j \<longrightarrow>
                  angle (tiles self' ! (ws ! i)) \<noteq> angle (tiles self' ! (ws ! j)))"
  proof (intro exI [of _ ?ws] conjI allI impI)
    show "wheel self' = Some ?ws" by (rule wh)
    show "length ?ws = length w" by simp
    show "distinct ?ws" by simp
    show "scene self' = scene self @ map TileRef ?ws @ [PathRef (length (paths self))]" by (rule sc)
  next
    fix i assume i: "i < length w"
    show "?ws ! i < length (tiles self')" using i len by (simp add: ts)
    show "alpha (tiles self' ! (?ws ! i)) = w ! i" using i by (simp only: ts nth alp)
    show "idx (tiles self' ! (?ws ! i)) = i" using i by (simp only: ts nth ix)
    show a: "angle (tiles self' ! (?ws ! i)) = 2 * pi * real i / real (length w)"
      using i by (simp only: ts nth ang)
    show "0 \<le> angle (tiles self' ! (?ws ! i))" "angle (tiles self' ! (?ws ! i)) < 2 * pi"
      using angle_range [OF i] by (simp_all only: a)
  next
    fix i assume i: "Suc i < length w"
    then have i': "i < length w" by simp
    show "angle (tiles self' ! (?ws ! Suc i)) - angle (tiles self' ! (?ws ! i)) = 2 * pi / real (length w)"
      using angle_step [OF i] by (simp only: ts nth [OF i] nth [OF i'] ang [OF i] ang [OF i'])
  next
    fix i j assume i: "i < length w" and j: "j < length w" and "i \<noteq> j"
    then show "angle (tiles self' ! (?ws ! i)) \<noteq> angle (tiles self' ! (?ws ! j))"
      using angle_inj [of i "length w" j] by (simp only: ts nth ang) simp
  qed
qed


lemma dom_map_of_graph: "dom (map_of (map (\<lambda>a. (a, f a)) xs)) = set xs"
  by (simp add: dom_map_of_conv_image_fst image_image)

lemma dom_get_letters: "dom (get_letters g) = set alphabet"
  by (simp add: get_letters_def dom_map_of_graph)

lemma letters_area0: "dom (letters area0) = set alphabet"
  by (simp add: area0_def LetterArea_init_def dom_get_letters)

text \<open>Claim C8, as amended. With count 0 the layout fails, though not with an
  \<open>InvalidArgument\<close>: the constructor of a tile raises \<^verbatim>\<open>ZeroDivisionError\<close>, and
  \<^verbatim>\<open>make_word\<close> on the empty word raises \<^verbatim>\<open>IndexError\<close> and leaves the widget as it
  was. With count 1 the single tile is placed at angle 0.\<close>

theorem layout_zero_and_one:
  "MyQGPixmapItem_init img i 0 a c r = Inl ZeroDivisionError \<and>
   make_word self [] = Inl (IndexError, self) \<and>
   (\<exists>t. MyQGPixmapItem_init img 0 1 a c r = Inr t \<and> angle t = 0) \<and>
   (letters self a \<noteq> None \<longrightarrow>
      (\<exists>self' x. make_word self [a] = Inr self' \<and> wheel self' = Some [x] \<and>
         x < length (tiles self') \<and> alpha (tiles self' ! x) = a \<and> angle (tiles self' ! x) = 0))"
proof (intro conjI impI)
  show "MyQGPixmapItem_init img i 0 a c r = Inl ZeroDivisionError"
    by (simp add: MyQGPixmapItem_init_def)
  show "make_word self [] = Inl (IndexError, self)" by (rule make_word_empty)
  show "\<exists>t. MyQGPixmapItem_init img 0 1 a c r = Inr t \<and> angle t = 0"
    by (simp add: MyQGPixmapItem_init_def)
next
  assume "letters self a \<noteq> None"
  then have sub: "set [a] \<subseteq> dom (letters self)" by auto
  have len: "1 \<le> length [a]" by simp
  note T = make_word_wheel [OF len, of self]
  from T [THEN conjunct1, rule_format, OF sub]
  obtain self' where mw: "make_word self [a] = Inr self'" ..
  from T [THEN conjunct2, rule_format, OF mw]
  obtain ws where ws: "wheel self' = Some ws \<and> length ws = length [a] \<and> distinct ws \<and>
               scene self' = scene self @ map TileRef ws @ [PathRef (length (paths self))] \<and>
               (\<forall>i<length [a].
                  ws ! i < length (tiles self') \<and>
                  alpha (tiles self' ! (ws ! i)) = [a] ! i \<and>
                  idx (tiles self' ! (ws ! i)) = i \<and>
                  angle (tiles self' ! (ws ! i)) = 2 * pi * real i / real (length [a]) \<and>
                  0 \<le> angle (tiles self' ! (ws ! i)) \<and>
                  angle (tiles self' ! (ws ! i)) < 2 * pi) \<and>
               (\<forall>i. Suc i < length [a] \<longrightarrow>
                  angle (tiles self' ! (ws ! Suc i)) - angle (tiles self' ! (ws ! i))
                    = 2 * pi / real (length [a])) \<and>
               (\<forall>i<length [a]. \<forall>j<length [a]. i \<noteq> j \<longrightarrow>
                  angle (tiles self' ! (ws ! i)) \<noteq> angle (tiles self' ! (ws ! j)))" ..
  from ws have w: "wheel self' = Some ws" and l: "length ws = 1" by simp_all
  from l obtain x where x: "ws = [x]" by (cases ws) auto
  from ws have "ws ! 0 < length (tiles self') \<and>
                  alpha (tiles self' ! (ws ! 0)) = [a] ! 0 \<and>
                  angle (tiles self' ! (ws ! 0)) = 2 * pi * real 0 / real (length [a])"
    by simp
  then have "x < length (tiles self') \<and> alpha (tiles self' ! x) = a \<and> angle (tiles self' ! x) = 0"
    by (simp add: x)
  with mw w x show "\<exists>self' x. make_word self [a] = Inr self' \<and> wheel self' = Some [x] \<and>
         x < length (tiles self') \<and> alpha (tiles self' ! x) = a \<and> angle (tiles self' ! x) = 0"
    by auto
qed

theorem layout_zero_and_one_witness:
  "letters area0 CHR ''A'' \<noteq> None \<and>
   make_word area0 [] = Inl (IndexError, area0) \<and>
   (\<exists>self' x. make_word area0 ''A'' = Inr self' \<and> wheel self' = Some [x] \<and>
       alpha (tiles self' ! x) = CHR ''A'' \<and> angle (tiles self' ! x) = 0)"
proof -
  have a: "letters area0 CHR ''A'' \<noteq> None"
    by (simp add: area0_def LetterArea_init_def get_letters_def alphabet_def)
  note T = layout_zero_and_one [of "glyph20 CHR ''A''" 0 "CHR ''A''" "(50, 50)" 80 area0]
  from T have 1: "make_word area0 [] = Inl (IndexError, area0)" by (elim conjE)
  from T have "letters area0 CHR ''A'' \<noteq> None \<longrightarrow>
      (\<exists>self' x. make_word area0 ''A'' = Inr self' \<and> wheel self' = Some [x] \<and>
         x < length (tiles self') \<and> alpha (tiles self' ! x) = CHR ''A'' \<and> angle (tiles self' ! x) = 0)"
    by (elim conjE)
  with a obtain self' x where "make_word area0 ''A'' = Inr self'" "wheel self' = Some [x]"
     "alpha (tiles self' ! x) = CHR ''A''" "angle (tiles self' ! x) = 0" by blast
  with a 1 show ?thesis by blast
qed

text \<open>Claim C8 as stated fails: the error of a zero-length wheel is not
  \<open>InvalidArgument\<close>.\<close>

theorem layout_zero_not_InvalidArgument:
  "make_word area0 [] = Inl (IndexError, area0) \<and>
   make_word area0 [] \<noteq> Inl (InvalidArgument, area0) \<and>
   MyQGPixmapItem_init (glyph20 CHR ''A'') 0 0 CHR ''A'' (50, 50) 80 = Inl ZeroDivisionError \<and>
   MyQGPixmapItem_init (glyph20 CHR ''A'') 0 0 CHR ''A'' (50, 50) 80 \<noteq> Inl InvalidArgument"
  by (simp add: make_word_empty MyQGPixmapItem_init_def)

subsection \<open>The pointer handlers\<close>

lemma mouseReleaseEvent_emitted:
  "emitted (mouseReleaseEvent self) =
     emitted self @ [mouseReleaseProc (spelled self (selected_widgets_list (view self)))]"
  by (simp add: mouseReleaseEvent_def Let_def spelled_def)

lemma mouseReleaseEvent_view:
  "view (mouseReleaseEvent self) =
     (view self)\<lparr> selected_widgets_set := {}, selected_widgets_list := [],
                  mouse_pressed := False, paint_path := [] \<rparr>"
  by (simp add: mouseReleaseEvent_def Let_def)

lemma mouseReleaseEvent_scene:
  "scene (mouseReleaseEvent self) = filter (\<lambda>item. \<not> is_green_path (paths self) item) (scene self)"
  "paths (mouseReleaseEvent self) = paths self"
  "tiles (mouseReleaseEvent self) = tiles self"
  "wheel (mouseReleaseEvent self) = wheel self"
  "last_path_highlighted (mouseReleaseEvent self) = last_path_highlighted self"
  by (simp_all add: mouseReleaseEvent_def Let_def)

lemma mouseReleaseEvent_no_green: "green_paths (mouseReleaseEvent self) = []"
  by (simp add: green_paths_def mouseReleaseEvent_scene filter_empty_conv)

lemma press_dismiss:
  assumes "has_highlighted (view self)"
  shows "mousePressEvent deselect self widget =
           (deselect self)\<lparr> view := (view self)\<lparr>has_highlighted := False, mouse_pressed := False\<rparr>,
                             emitted := emitted self @ [clearHighlight True] \<rparr>"
  using assms by (simp add: mousePressEvent_def deselect_def Let_def split: option.splits)

lemma press_tile:
  assumes "\<not> has_highlighted (view self)" "w \<notin> selected_widgets_set (view self)"
  shows "mousePressEvent slot self (Some (TileRef w)) =
           self\<lparr> view := (view self)\<lparr> mouse_pressed := True, paint_path := [],
                                      selected_widgets_set := {w}, selected_widgets_list := [w] \<rparr>,
                 emitted := emitted self @ [mouseOverWidget w] \<rparr>"
  using assms by (simp add: mousePressEvent_def Let_def)

lemma press_off_tile:
  assumes "\<not> has_highlighted (view self)" "over_tiles [widget] = []"
  shows "mousePressEvent slot self widget = self\<lparr>view := (view self)\<lparr>mouse_pressed := True\<rparr>\<rparr>"
proof (cases widget)
  case None
  then show ?thesis using assms by (simp add: mousePressEvent_def Let_def)
next
  case (Some item)
  then show ?thesis using assms by (cases item) (simp_all add: mousePressEvent_def Let_def)
qed

lemma trace_selection_line:
  "\<forall>x \<in> set sel. offset_xy (ts ! x) \<noteq> None \<Longrightarrow>
     trace_selection ts pp (Suc i) sel = Inr (pp @ map lineTo (anchors ts sel))"
  by (induction sel arbitrary: pp i) (auto simp: anchors_def)

lemma trace_selection_polyline:
  "\<forall>x \<in> set sel. offset_xy (ts ! x) \<noteq> None \<Longrightarrow>
     trace_selection ts pp 0 sel = Inr (pp @ polyline (anchors ts sel))"
proof (cases sel)
  case Nil
  then show ?thesis by (simp add: anchors_def)
next
  case (Cons x xs)
  assume a: "\<forall>x \<in> set sel. offset_xy (ts ! x) \<noteq> None"
  then obtain p where p: "offset_xy (ts ! x) = Some p" using Cons by auto
  from a Cons have "\<forall>y \<in> set xs. offset_xy (ts ! y) \<noteq> None" by simp
  from trace_selection_line [OF this, of "pp @ [moveTo p]" 0] p Cons
  show ?thesis by (simp add: anchors_def)
qed

lemma move_not_pressed:
  "\<not> mouse_pressed (view self) \<Longrightarrow> mouseMoveEvent self widget = Inr self"
  by (simp add: mouseMoveEvent_def)

lemma move_draws:
  assumes "mouse_pressed (view self)"
    and "\<forall>x \<in> set (selected_widgets_list (view self)). offset_xy (tiles self ! x) \<noteq> None"
    and "over_tiles [widget] = [] \<or> (\<exists>w. widget = Some (TileRef w) \<and> w \<in> selected_widgets_set (view self))"
  shows "mouseMoveEvent self widget = Inr (drawn self (selected_widgets_list (view self)))"
proof -
  have 1: "(case widget of
                  Some (TileRef w) \<Rightarrow>
                    (if w \<notin> selected_widgets_set (view self) then
                       self\<lparr> view := (view self)\<lparr>
                                 selected_widgets_list := selected_widgets_list (view self) @ [w],
                                 selected_widgets_set := insert w (selected_widgets_set (view self)) \<rparr>,
                             emitted := emitted self @ [mouseOverWidget w] \<rparr>
                     else self)
                | _ \<Rightarrow> self) = self"
  proof (cases widget)
    case None
    then show ?thesis by simp
  next
    case (Some item)
    then show ?thesis using assms(3) by (cases item) auto
  qed
  show ?thesis
    unfolding mouseMoveEvent_def 1 Let_def drawn_def
    using assms(1) trace_selection_polyline [OF assms(2), of "paint_path (view self)"]
    by simp
qed

lemma move_enters:
  assumes "mouse_pressed (view self)"
    and "\<forall>x \<in> set (selected_widgets_list (view self)). offset_xy (tiles self ! x) \<noteq> None"
    and "offset_xy (tiles self ! w) \<noteq> None"
    and "w \<notin> selected_widgets_set (view self)"
  shows "mouseMoveEvent self (Some (TileRef w)) =
     Inr (drawn (self\<lparr> view := (view self)\<lparr>
                                 selected_widgets_list := selected_widgets_list (view self) @ [w],
                                 selected_widgets_set := insert w (selected_widgets_set (view self)) \<rparr>,
                             emitted := emitted self @ [mouseOverWidget w] \<rparr>)
                 (selected_widgets_list (view self) @ [w]))"
proof -
  have "\<forall>x \<in> set (selected_widgets_list (view self) @ [w]). offset_xy (tiles self ! x) \<noteq> None"
    using assms(2,3) by simp
  from trace_selection_polyline [OF this, of "paint_path (view self)"] assms(1,4)
  show ?thesis
    by (simp add: mouseMoveEvent_def Let_def drawn_def)
qed

lemma nth_update_field:
  assumes "f (g (ts ! i)) = f (ts ! i)"
  shows "f ((ts[i := g (ts ! i)]) ! x) = f (ts ! x)"
proof (cases "i < length ts")
  case True
  then show ?thesis using assms by (cases "x = i") simp_all
next
  case False
  then show ?thesis by (simp add: list_update_beyond)
qed

lemma tile_path_item_update:
  "alpha ((ts[i := (ts ! i)\<lparr>path_item := q\<rparr>]) ! x) = alpha (ts ! x)"
  "offset_xy ((ts[i := (ts ! i)\<lparr>path_item := q\<rparr>]) ! x) = offset_xy (ts ! x)"
  "hit ((ts[i := (ts ! i)\<lparr>path_item := q\<rparr>]) ! x) = hit (ts ! x)"
  by (rule nth_update_field [where g = "\<lambda>t. t\<lparr>path_item := q\<rparr>"], simp)+

lemma drawn_view:
  "selected_widgets_list (view (drawn self sel)) = selected_widgets_list (view self)"
  "selected_widgets_set (view (drawn self sel)) = selected_widgets_set (view self)"
  "mouse_pressed (view (drawn self sel)) = mouse_pressed (view self)"
  "has_highlighted (view (drawn self sel)) = has_highlighted (view self)"
  "emitted (drawn self sel) = emitted self"
  "wheel (drawn self sel) = wheel self"
  "last_path_highlighted (drawn self sel) = last_path_highlighted self"
  "length (tiles (drawn self sel)) = length (tiles self)"
  by (simp_all add: drawn_def)

lemma drawn_tiles:
  "alpha (tiles (drawn self sel) ! x) = alpha (tiles self ! x)"
  "offset_xy (tiles (drawn self sel) ! x) = offset_xy (tiles self ! x)"
  "hit (tiles (drawn self sel) ! x) = hit (tiles self ! x)"
  by (simp_all add: drawn_def tile_path_item_update)

lemma over_tiles_Cons: "over_tiles (widget # widgets) = over_tiles [widget] @ over_tiles widgets"
proof (cases widget)
  case None
  then show ?thesis by simp
next
  case (Some item)
  then show ?thesis by (cases item) simp_all
qed

lemma remdups_drop_seen:
  "w \<in> set ys \<Longrightarrow> remdups (xs @ w # ys) = remdups (xs @ ys)"
  by (induction xs) auto

lemma distinct_visits_seen:
  "w \<in> set sel \<Longrightarrow> distinct_visits (sel @ w # rest) = distinct_visits (sel @ rest)"
  by (simp add: distinct_visits_def remdups_drop_seen)

lemma distinct_visits_distinct: "distinct (distinct_visits xs)"
  by (simp add: distinct_visits_def)

lemma distinct_visits_set: "set (distinct_visits xs) = set xs"
  by (simp add: distinct_visits_def)

lemma distinct_visits_id: "distinct xs \<Longrightarrow> distinct_visits xs = xs"
  by (simp add: distinct_visits_def distinct_remdups_id)

lemma moves_dragging:
  assumes "dragging self"
    and "\<forall>w \<in> set (over_tiles widgets). offset_xy (tiles self ! w) \<noteq> None"
  shows "\<exists>self'. moves self widgets = Inr self' \<and> dragging self' \<and>
           selected_widgets_list (view self') =
             distinct_visits (selected_widgets_list (view self) @ over_tiles widgets) \<and>
           has_highlighted (view self') = has_highlighted (view self) \<and>
           (\<forall>x. alpha (tiles self' ! x) = alpha (tiles self ! x)) \<and>
           (\<forall>x. offset_xy (tiles self' ! x) = offset_xy (tiles self ! x))"
  using assms
proof (induction widgets arbitrary: self)
  case Nil
  then show ?case by (simp add: dragging_def distinct_visits_id)
next
  case (Cons widget widgets)
  let ?sel = "selected_widgets_list (view self)"
  from Cons.prems(1) have pressed: "mouse_pressed (view self)"
    and sset: "selected_widgets_set (view self) = set ?sel"
    and dist: "distinct ?sel"
    and anch: "\<forall>x \<in> set ?sel. offset_xy (tiles self ! x) \<noteq> None"
    by (simp_all add: dragging_def)
  consider (off) "over_tiles [widget] = []"
    | (seen) w where "widget = Some (TileRef w)" "w \<in> set ?sel"
    | (new) w where "widget = Some (TileRef w)" "w \<notin> set ?sel"
  proof (cases widget)
    case None
    then show ?thesis using that(1) by simp
  next
    case (Some item)
    then show ?thesis using that by (cases item) auto
  qed
  then show ?case
  proof cases
    case off
    let ?s1 = "drawn self ?sel"
    have m: "mouseMoveEvent self widget = Inr ?s1"
      using move_draws [OF pressed anch] off by simp
    have d: "dragging ?s1"
      using Cons.prems(1) by (simp add: dragging_def drawn_view drawn_tiles)
    have ot: "over_tiles (widget # widgets) = over_tiles widgets"
      using off over_tiles_Cons [of widget widgets] by simp
    have "\<forall>w \<in> set (over_tiles widgets). offset_xy (tiles ?s1 ! w) \<noteq> None"
      using Cons.prems(2) ot by (simp add: drawn_tiles)
    from Cons.IH [OF d this] m ot show ?thesis
      by (simp add: drawn_view drawn_tiles)
  next
    case seen
    let ?s1 = "drawn self ?sel"
    have m: "mouseMoveEvent self widget = Inr ?s1"
      using move_draws [OF pressed anch] seen sset by simp
    have d: "dragging ?s1"
      using Cons.prems(1) by (simp add: dragging_def drawn_view drawn_tiles)
    have ot: "over_tiles (widget # widgets) = w # over_tiles widgets"
      using seen by simp
    have "\<forall>w \<in> set (over_tiles widgets). offset_xy (tiles ?s1 ! w) \<noteq> None"
      using Cons.prems(2) ot by (simp add: drawn_tiles)
    from Cons.IH [OF d this] m ot seen(2) show ?thesis
      by (simp add: drawn_view drawn_tiles distinct_visits_seen)
  next
    case new
    let ?s0 = "self\<lparr> view := (view self)\<lparr>
                                 selected_widgets_list := ?sel @ [w],
                                 selected_widgets_set := insert w (selected_widgets_set (view self)) \<rparr>,
                             emitted := emitted self @ [mouseOverWidget w] \<rparr>"
    let ?s1 = "drawn ?s0 (?sel @ [w])"
    have ot: "over_tiles (widget # widgets) = w # over_tiles widgets"
      using new by simp
    have aw: "offset_xy (tiles self ! w) \<noteq> None"
      using Cons.prems(2) ot by simp
    have m: "mouseMoveEvent self widget = Inr ?s1"
      using move_enters [OF pressed anch aw] new sset by simp
    have d: "dragging ?s1"
      using Cons.prems(1) aw new(2) by (auto simp: dragging_def drawn_view drawn_tiles)
    have "\<forall>w \<in> set (over_tiles widgets). offset_xy (tiles ?s1 ! w) \<noteq> None"
      using Cons.prems(2) ot by (simp add: drawn_tiles)
    from Cons.IH [OF d this] m ot show ?thesis
      by (simp add: drawn_view drawn_tiles)
  qed
qed

lemma over_tiles_append: "over_tiles (xs @ ys) = over_tiles xs @ over_tiles ys"
proof (induction xs)
  case Nil
  then show ?case by simp
next
  case (Cons x xs)
  then show ?case
    using over_tiles_Cons [of x "xs @ ys"] over_tiles_Cons [of x xs] by simp
qed

lemma over_tiles_take: "set (over_tiles (take k widgets)) \<subseteq> set (over_tiles widgets)"
proof -
  have "over_tiles widgets = over_tiles (take k widgets) @ over_tiles (drop k widgets)"
    by (simp add: over_tiles_append [symmetric])
  then show ?thesis by auto
qed

lemma over_tiles_tiles: "over_tiles (map (\<lambda>w. Some (TileRef w)) ws) = ws"
  by (induction ws) simp_all

lemma placed_nth: "placed self \<Longrightarrow> x < length (tiles self) \<Longrightarrow> offset_xy (tiles self ! x) \<noteq> None"
  by (simp add: placed_def)

lemma press_starts_drag:
  assumes "placed self" "\<not> has_highlighted (view self)" "T1 < length (tiles self)"
    "T1 \<notin> selected_widgets_set (view self)"
  shows "dragging (mousePressEvent slot self (Some (TileRef T1)))"
    "selected_widgets_list (view (mousePressEvent slot self (Some (TileRef T1)))) = [T1]"
    "tiles (mousePressEvent slot self (Some (TileRef T1))) = tiles self"
    "emitted (mousePressEvent slot self (Some (TileRef T1))) = emitted self @ [mouseOverWidget T1]"
  using assms placed_nth [OF assms(1,3)]
  by (simp_all add: press_tile dragging_def)

lemma drag_selection:
  assumes "placed self" "\<not> has_highlighted (view self)" "T1 < length (tiles self)"
    "T1 \<notin> selected_widgets_set (view self)"
    "\<forall>w \<in> set (over_tiles widgets). w < length (tiles self)"
  shows "\<exists>self'. moves (mousePressEvent slot self (Some (TileRef T1))) widgets = Inr self' \<and>
           selected_widgets_list (view self') = distinct_visits (T1 # over_tiles widgets) \<and>
           spelled self' = spelled self"
proof -
  let ?s1 = "mousePressEvent slot self (Some (TileRef T1))"
  note p = press_starts_drag [OF assms(1-4), of slot]
  have "\<forall>w \<in> set (over_tiles widgets). offset_xy (tiles ?s1 ! w) \<noteq> None"
    using assms(1,5) by (simp add: p(3) placed_nth)
  from moves_dragging [OF p(1) this] obtain self' where
    m: "moves ?s1 widgets = Inr self'"
    and l: "selected_widgets_list (view self') = distinct_visits (selected_widgets_list (view ?s1) @ over_tiles widgets)"
    and a: "\<forall>x. alpha (tiles self' ! x) = alpha (tiles ?s1 ! x)"
    by blast
  have "spelled self' = spelled self"
    using a by (simp add: spelled_def fun_eq_iff p(3))
  with m l show ?thesis by (simp add: p(2))
qed

text \<open>Claim C3. A drag that presses on the tile \<open>T1\<close> and then moves over any items
  before the release: every handler returns, the selection is the list of the distinct
  tiles visited, in the order of their first visit, and the release emits their letters as
  the word. After every prefix of the moves the selection is free of duplicates. The tiles
  are those of a surface laid out by \<^verbatim>\<open>make_word\<close>, no replay highlight is showing, and
  \<open>T1\<close> is not selected already (nothing is, after a release).\<close>

theorem drag_spells_visited_tiles:
  assumes "placed self" and "\<not> has_highlighted (view self)"
    and "T1 < length (tiles self)" and "T1 \<notin> selected_widgets_set (view self)"
    and "\<forall>w \<in> set (over_tiles widgets). w < length (tiles self)"
  shows "(\<exists>self'. moves (mousePressEvent slot self (Some (TileRef T1))) widgets = Inr self' \<and>
            selected_widgets_list (view self') = distinct_visits (T1 # over_tiles widgets) \<and>
            emitted (mouseReleaseEvent self') =
              emitted self' @ [mouseReleaseProc (spelled self (distinct_visits (T1 # over_tiles widgets)))]) \<and>
         (\<forall>k. \<exists>self'. moves (mousePressEvent slot self (Some (TileRef T1))) (take k widgets) = Inr self' \<and>
            distinct (selected_widgets_list (view self')))"
proof (intro conjI allI)
  from drag_selection [OF assms, of slot] obtain self' where
    "moves (mousePressEvent slot self (Some (TileRef T1))) widgets = Inr self'"
    "selected_widgets_list (view self') = distinct_visits (T1 # over_tiles widgets)"
    "spelled self' = spelled self" by blast
  then show "\<exists>self'. moves (mousePressEvent slot self (Some (TileRef T1))) widgets = Inr self' \<and>
            selected_widgets_list (view self') = distinct_visits (T1 # over_tiles widgets) \<and>
            emitted (mouseReleaseEvent self') =
              emitted self' @ [mouseReleaseProc (spelled self (distinct_visits (T1 # over_tiles widgets)))]"
    by (simp add: mouseReleaseEvent_emitted)
next
  fix k
  have "\<forall>w \<in> set (over_tiles (take k widgets)). w < length (tiles self)"
    using assms(5) over_tiles_take [of k widgets] by blast
  from drag_selection [OF assms(1-4) this, of slot]
  show "\<exists>self'. moves (mousePressEvent slot self (Some (TileRef T1))) (take k widgets) = Inr self' \<and>
            distinct (selected_widgets_list (view self'))"
    using distinct_visits_distinct by auto
qed

lemma make_word_loaded:
  assumes mw: "make_word self w = Inr self'"
  shows "loaded self' [length (tiles self) ..< length (tiles self) + length w]"
    and "view self' = view self"
    and "emitted self' = emitted self"
    and "last_path_highlighted self' = last_path_highlighted self"
    and "length (tiles self') = length (tiles self) + length w"
    and "length (paths self') = Suc (length (paths self))"
    and "scene self' = scene self @ map TileRef [length (tiles self) ..< length (tiles self) + length w]
                         @ [PathRef (length (paths self))]"
    and "pen_color (paths self' ! length (paths self)) = Qt_red"
    and "\<forall>p < length (paths self). paths self' ! p = paths self ! p"
    and "placed self \<Longrightarrow> placed self'"
    and "spelled self' [length (tiles self) ..< length (tiles self) + length w] = w"
proof -
  have ne: "w \<noteq> []" using mw by (auto simp: make_word_empty)
  from mw obtain ls0 where
    ml: "make_letters (letters self) (center self) (area_radius self) (length w) 0 w = Inr ls0"
    by (auto simp: make_word_def split: sum.splits)
  have len: "length ls0 = length w" using ml by (rule make_letters_length)
  note eq = make_word_Inr [OF ml ne, unfolded mw, simplified]
  let ?ts = "tiles self @ map (place_letter (area_radius self)) ls0"
  have ts: "tiles self' = ?ts" by (subst eq) simp
  have nth: "\<And>k. k < length w \<Longrightarrow>
      hit (?ts ! (length (tiles self) + k)) = False \<and>
      offset_xy (?ts ! (length (tiles self) + k)) \<noteq> None \<and>
      alpha (?ts ! (length (tiles self) + k)) = w ! k"
    by (simp only: make_word_tiles_nth [OF ml] place_letter_fields place_letter_offset) simp
  show "loaded self' [length (tiles self) ..< length (tiles self) + length w]"
    unfolding loaded_def
  proof (intro conjI ballI)
    show "wheel self' = Some [length (tiles self) ..< length (tiles self) + length w]"
      by (subst eq) simp
    show "distinct [length (tiles self) ..< length (tiles self) + length w]" by simp
  next
    fix x assume "x \<in> set [length (tiles self) ..< length (tiles self) + length w]"
    then obtain k where k: "k < length w" and x: "x = length (tiles self) + k"
      by (auto simp: nat_le_iff_add)
    show "x < length (tiles self')" using k len by (simp add: ts x)
    show "\<not> hit (tiles self' ! x)" using nth [OF k] by (simp only: ts x) simp
    show "offset_xy (tiles self' ! x) \<noteq> None" using nth [OF k] by (simp only: ts x) simp
  qed
  show "view self' = view self" by (subst eq) simp
  show "emitted self' = emitted self" by (subst eq) simp
  show "last_path_highlighted self' = last_path_highlighted self" by (subst eq) simp
  show "length (tiles self') = length (tiles self) + length w" using len by (simp add: ts)
  show "length (paths self') = Suc (length (paths self))" by (subst eq) simp
  show "scene self' = scene self @ map TileRef [length (tiles self) ..< length (tiles self) + length w]
                         @ [PathRef (length (paths self))]" by (subst eq) simp
  show "pen_color (paths self' ! length (paths self)) = Qt_red" by (subst eq) simp
  show "\<forall>p < length (paths self). paths self' ! p = paths self ! p"
    by (subst eq) (simp add: nth_append)
  show "placed self'" if "placed self"
    using that by (auto simp: placed_def ts place_letter_offset)
  show "spelled self' [length (tiles self) ..< length (tiles self) + length w] = w"
  proof (rule nth_equalityI)
    show "length (spelled self' [length (tiles self) ..< length (tiles self) + length w]) = length w"
      by (simp add: spelled_def)
  next
    fix i assume "i < length (spelled self' [length (tiles self) ..< length (tiles self) + length w])"
    then have i: "i < length w" by (simp add: spelled_def)
    then show "spelled self' [length (tiles self) ..< length (tiles self) + length w] ! i = w ! i"
      using nth [OF i] by (simp add: spelled_def ts)
  qed
qed

lemma make_word_area0:
  assumes "w \<noteq> []" "set w \<subseteq> set alphabet"
  shows "make_word area0 w = Inr (state_of (make_word area0 w))"
proof -
  have "1 \<le> length w" using assms(1) by (cases w) auto
  from make_word_wheel [OF this, of area0, THEN conjunct1] assms(2)
  obtain self' where "make_word area0 w = Inr self'" by (auto simp: letters_area0)
  then show ?thesis by (simp add: state_of_def)
qed

lemma area0_fields:
  "tiles area0 = []" "paths area0 = []" "scene area0 = []" "emitted area0 = []"
  "view area0 = LetterAreaView_init" "last_path_highlighted area0 = None" "placed area0"
  by (simp_all add: area0_def LetterArea_init_def placed_def)

lemma wheel_CAT:
  "make_word area0 ''CAT'' = Inr wheel_CAT"
  unfolding wheel_CAT_def by (rule make_word_area0) (simp_all add: alphabet_def)

lemma wheel_CAT_fields:
  "loaded wheel_CAT [0, 1, 2]" "view wheel_CAT = LetterAreaView_init" "emitted wheel_CAT = []"
  "last_path_highlighted wheel_CAT = None" "length (tiles wheel_CAT) = 3" "placed wheel_CAT"
  "spelled wheel_CAT [0, 1, 2] = ''CAT''" "scene wheel_CAT = [TileRef 0, TileRef 1, TileRef 2, PathRef 0]"
  "pen_color (paths wheel_CAT ! 0) = Qt_red" "length (paths wheel_CAT) = 1"
  using make_word_loaded [OF wheel_CAT]
  by (simp_all add: area0_fields upt_rec [of 0] upt_rec [of 1] upt_rec [of 2]
        numeral_2_eq_2 numeral_3_eq_3)

lemma wheel_CAT_alpha:
  "alpha (tiles wheel_CAT ! 0) = CHR ''C''" "alpha (tiles wheel_CAT ! 1) = CHR ''A''"
  "alpha (tiles wheel_CAT ! 2) = CHR ''T''" "alpha (tiles wheel_CAT ! Suc 0) = CHR ''A''"
  using wheel_CAT_fields(7) by (simp_all add: spelled_def)

theorem drag_spells_visited_tiles_witness:
  "placed wheel_CAT \<and> \<not> has_highlighted (view wheel_CAT) \<and> 0 < length (tiles wheel_CAT) \<and>
   0 \<notin> selected_widgets_set (view wheel_CAT) \<and>
   over_tiles [Some (TileRef 1), Some (TileRef 0), None, Some (TileRef 2)] = [1, 0, 2] \<and>
   length (tiles wheel_CAT) = 3 \<and>
   (\<exists>self'. moves (mousePressEvent deselect wheel_CAT (Some (TileRef 0)))
              [Some (TileRef 1), Some (TileRef 0), None, Some (TileRef 2)] = Inr self' \<and>
      selected_widgets_list (view self') = [0, 1, 2] \<and>
      emitted (mouseReleaseEvent self') = emitted self' @ [mouseReleaseProc ''CAT''])"
proof -
  have h: "placed wheel_CAT" "\<not> has_highlighted (view wheel_CAT)" "0 < length (tiles wheel_CAT)"
    "0 \<notin> selected_widgets_set (view wheel_CAT)"
    "\<forall>w \<in> set (over_tiles [Some (TileRef 1), Some (TileRef 0), None, Some (TileRef 2)]).
       w < length (tiles wheel_CAT)"
    by (simp_all add: wheel_CAT_fields LetterAreaView_init_def)
  have v: "distinct_visits (0 # over_tiles [Some (TileRef 1), Some (TileRef 0), None, Some (TileRef 2)])
     = [0, 1, 2]"
    by (simp add: distinct_visits_def)
  from drag_spells_visited_tiles [OF h, of deselect, THEN conjunct1]
  obtain self' where
    m: "moves (mousePressEvent deselect wheel_CAT (Some (TileRef 0)))
              [Some (TileRef 1), Some (TileRef 0), None, Some (TileRef 2)] = Inr self'"
    and l: "selected_widgets_list (view self') =
              distinct_visits (0 # over_tiles [Some (TileRef 1), Some (TileRef 0), None, Some (TileRef 2)])"
    and e: "emitted (mouseReleaseEvent self') = emitted self' @
              [mouseReleaseProc (spelled wheel_CAT
                 (distinct_visits (0 # over_tiles [Some (TileRef 1), Some (TileRef 0), None, Some (TileRef 2)])))]"
    by blast
  from l have l': "selected_widgets_list (view self') = [0, 1, 2]" by (simp only: v)
  from e have e': "emitted (mouseReleaseEvent self') = emitted self' @ [mouseReleaseProc ''CAT'']"
    by (simp only: v wheel_CAT_fields(7))
  have o: "over_tiles [Some (TileRef 1), Some (TileRef 0), None, Some (TileRef 2)] = [1, 0, 2]"
    by simp
  from h(1-4) o wheel_CAT_fields(5) m l' e' show ?thesis by blast
qed

subsection \<open>The release\<close>

lemma moves_not_pressed:
  "\<not> mouse_pressed (view self) \<Longrightarrow> moves self widgets = Inr self"
  by (induction widgets) (simp_all add: move_not_pressed)

lemma drawn_short: "length sel \<le> 1 \<Longrightarrow> drawn self sel = self"
  by (simp add: drawn_def)

lemma moves_off_tiles:
  assumes "mouse_pressed (view self)" "selected_widgets_list (view self) = []"
    "over_tiles widgets = []"
  shows "moves self widgets = Inr self"
  using assms(3)
proof (induction widgets)
  case Nil
  then show ?case by simp
next
  case (Cons widget widgets)
  from Cons.prems over_tiles_Cons [of widget widgets]
  have o: "over_tiles [widget] = []" and os: "over_tiles widgets = []" by simp_all
  have "mouseMoveEvent self widget = Inr (drawn self (selected_widgets_list (view self)))"
    by (rule move_draws) (simp_all add: assms(1,2) o)
  then have "mouseMoveEvent self widget = Inr self"
    by (simp add: assms(2) drawn_short)
  with Cons.IH [OF os] show ?case by simp
qed

lemma spelled_Nil: "spelled self [] = []"
  by (simp add: spelled_def)

text \<open>Claim C9. A release with no tile or one tile selected emits the word all the same,
  the empty string or the single letter; the handler has no rejecting branch and raises
  nothing. It then clears the selection, the button state and the paint path, and no green
  path item is left on the scene.\<close>

theorem release_emits_short_word:
  assumes "length (selected_widgets_list (view self)) \<le> 1"
  shows "emitted (mouseReleaseEvent self) =
           emitted self @
             [mouseReleaseProc (case selected_widgets_list (view self) of
                                  [] \<Rightarrow> []
                                | x # _ \<Rightarrow> [alpha (tiles self ! x)])] \<and>
         selected_widgets_list (view (mouseReleaseEvent self)) = [] \<and>
         selected_widgets_set (view (mouseReleaseEvent self)) = {} \<and>
         \<not> mouse_pressed (view (mouseReleaseEvent self)) \<and>
         paint_path (view (mouseReleaseEvent self)) = [] \<and>
         green_paths (mouseReleaseEvent self) = []"
proof -
  have "spelled self (selected_widgets_list (view self)) =
          (case selected_widgets_list (view self) of [] \<Rightarrow> [] | x # _ \<Rightarrow> [alpha (tiles self ! x)])"
    using assms by (cases "selected_widgets_list (view self)") (simp_all add: spelled_def)
  then show ?thesis
    by (simp add: mouseReleaseEvent_emitted mouseReleaseEvent_view mouseReleaseEvent_no_green)
qed

theorem release_emits_short_word_witness:
  "length (selected_widgets_list (view (mousePressEvent deselect wheel_CAT (Some (TileRef 2))))) \<le> 1 \<and>
   emitted (mouseReleaseEvent (mousePressEvent deselect wheel_CAT (Some (TileRef 2)))) =
     [mouseOverWidget 2, mouseReleaseProc ''T''] \<and>
   length (selected_widgets_list (view wheel_CAT)) \<le> 1 \<and>
   emitted (mouseReleaseEvent wheel_CAT) = [mouseReleaseProc '''']"
proof -
  let ?s = "mousePressEvent deselect wheel_CAT (Some (TileRef 2))"
  have p: "?s = wheel_CAT\<lparr> view := (view wheel_CAT)\<lparr> mouse_pressed := True, paint_path := [],
                                      selected_widgets_set := {2}, selected_widgets_list := [2] \<rparr>,
                 emitted := emitted wheel_CAT @ [mouseOverWidget 2] \<rparr>"
    by (rule press_tile) (simp_all add: wheel_CAT_fields LetterAreaView_init_def)
  have h1: "length (selected_widgets_list (view ?s)) \<le> 1" unfolding p by simp
  have h0: "length (selected_widgets_list (view wheel_CAT)) \<le> 1"
    by (simp add: wheel_CAT_fields LetterAreaView_init_def)
  from release_emits_short_word [OF h1, THEN conjunct1]
  have 1: "emitted (mouseReleaseEvent ?s) = [mouseOverWidget 2, mouseReleaseProc ''T'']"
    by (simp add: p wheel_CAT_fields wheel_CAT_alpha)
  from release_emits_short_word [OF h0, THEN conjunct1]
  have 0: "emitted (mouseReleaseEvent wheel_CAT) = [mouseReleaseProc '''']"
    by (simp add: wheel_CAT_fields LetterAreaView_init_def)
  from h1 1 h0 0 show ?thesis by blast
qed

lemma release_after_idle_press:
  "emitted (mouseReleaseEvent self) =
     emitted self @ [mouseReleaseProc (spelled self (selected_widgets_list (view self)))] \<and>
   green_paths (mouseReleaseEvent self) = [] \<and>
   (selected_widgets_list (view self) = [] \<longrightarrow>
      emitted (mouseReleaseEvent self) = emitted self @ [mouseReleaseProc []] \<and>
      (\<not> has_highlighted (view self) \<and> over_tiles (widget # widgets) = [] \<longrightarrow>
         (\<exists>self'. moves (mousePressEvent slot self widget) widgets = Inr self' \<and>
            emitted (mouseReleaseEvent self') = emitted self @ [mouseReleaseProc []] \<and>
            green_paths (mouseReleaseEvent self') = [])) \<and>
      (has_highlighted (view self) \<longrightarrow>
         (\<exists>self'. moves (mousePressEvent deselect self widget) widgets = Inr self' \<and>
            selected_widgets_list (view self') = [] \<and>
            emitted (mouseReleaseEvent self') =
              emitted self @ [clearHighlight True, mouseReleaseProc []] \<and>
            green_paths (mouseReleaseEvent self') = [])))"
proof (intro conjI impI)
  show "emitted (mouseReleaseEvent self) =
     emitted self @ [mouseReleaseProc (spelled self (selected_widgets_list (view self)))]"
    by (rule mouseReleaseEvent_emitted)
  show "green_paths (mouseReleaseEvent self) = []" by (rule mouseReleaseEvent_no_green)
next
  assume "selected_widgets_list (view self) = []"
  then show "emitted (mouseReleaseEvent self) = emitted self @ [mouseReleaseProc []]"
    by (simp add: mouseReleaseEvent_emitted spelled_Nil)
next
  assume e: "selected_widgets_list (view self) = []"
    and "\<not> has_highlighted (view self) \<and> over_tiles (widget # widgets) = []"
  then have h: "\<not> has_highlighted (view self)" and o: "over_tiles [widget] = []"
    and os: "over_tiles widgets = []"
    using over_tiles_Cons [of widget widgets] by simp_all
  let ?s = "self\<lparr>view := (view self)\<lparr>mouse_pressed := True\<rparr>\<rparr>"
  have p: "mousePressEvent slot self widget = ?s" using h o by (rule press_off_tile)
  have "moves ?s widgets = Inr ?s"
    by (rule moves_off_tiles) (simp_all add: e os)
  then show "\<exists>self'. moves (mousePressEvent slot self widget) widgets = Inr self' \<and>
            emitted (mouseReleaseEvent self') = emitted self @ [mouseReleaseProc []] \<and>
            green_paths (mouseReleaseEvent self') = []"
    by (simp add: p mouseReleaseEvent_emitted mouseReleaseEvent_no_green e spelled_Nil)
next
  assume e: "selected_widgets_list (view self) = []" and h: "has_highlighted (view self)"
  let ?s = "(deselect self)\<lparr> view := (view self)\<lparr>has_highlighted := False, mouse_pressed := False\<rparr>,
                             emitted := emitted self @ [clearHighlight True] \<rparr>"
  have p: "mousePressEvent deselect self widget = ?s" using h by (rule press_dismiss)
  have "moves ?s widgets = Inr ?s"
    by (rule moves_not_pressed) simp
  then show "\<exists>self'. moves (mousePressEvent deselect self widget) widgets = Inr self' \<and>
            selected_widgets_list (view self') = [] \<and>
            emitted (mouseReleaseEvent self') =
              emitted self @ [clearHighlight True, mouseReleaseProc []] \<and>
            green_paths (mouseReleaseEvent self') = []"
    by (simp add: p mouseReleaseEvent_emitted mouseReleaseEvent_no_green e spelled_Nil)
qed

subsection \<open>The replay highlight\<close>

lemma subseteq_add_mset: "(A::'a multiset) \<subseteq># B \<Longrightarrow> A \<subseteq># add_mset w B"
  using subset_mset.trans [of A B "add_mset w B"] by simp

lemma assign_acc:
  "assign ts tmp word sel = (fst (assign ts tmp word []), sel @ snd (assign ts tmp word []))"
proof (induction word arbitrary: ts sel)
  case Nil
  then show ?case by simp
next
  case (Cons w ws)
  show ?case
  proof (cases "first_unused ts tmp w")
    case None
    then show ?thesis using Cons [of ts sel] by simp
  next
    case (Some x)
    let ?ts = "ts[x := (ts ! x)\<lparr>hit := True\<rparr>]"
    from Cons [of ?ts "sel @ [x]"] Cons [of ?ts "[x]"] Some
    show ?thesis by simp
  qed
qed

lemma assign_Cons_None:
  "first_unused ts tmp w = None \<Longrightarrow> assign ts tmp (w # ws) [] = assign ts tmp ws []"
  by simp

lemma assign_Cons_Some:
  "first_unused ts tmp w = Some x \<Longrightarrow>
     assign ts tmp (w # ws) [] =
       (fst (assign (ts[x := (ts ! x)\<lparr>hit := True\<rparr>]) tmp ws []),
        x # snd (assign (ts[x := (ts ! x)\<lparr>hit := True\<rparr>]) tmp ws []))"
  using assign_acc [of "ts[x := (ts ! x)\<lparr>hit := True\<rparr>]" tmp ws "[x]"] by simp

lemma first_unused_Some:
  "first_unused ts tmp w = Some x \<Longrightarrow> x \<in> set tmp \<and> alpha (ts ! x) = w \<and> \<not> hit (ts ! x)"
  by (auto simp: first_unused_def find_Some_iff)

lemma mark_nth:
  assumes "x < length ts"
  shows "(ts[x := (ts ! x)\<lparr>hit := True\<rparr>]) ! y = (ts ! y)\<lparr>hit := hit (ts ! y) \<or> y = x\<rparr>"
  using assms by (cases "y = x") simp_all

text \<open>What the assignment loop does, whether or not every letter finds a tile.\<close>

lemma assign_frame:
  assumes "\<forall>x \<in> set tmp. x < length ts"
  shows "length (fst (assign ts tmp word [])) = length ts \<and>
         (\<forall>y. fst (assign ts tmp word []) ! y =
               (ts ! y)\<lparr>hit := hit (ts ! y) \<or> y \<in> set (snd (assign ts tmp word []))\<rparr>) \<and>
         set (snd (assign ts tmp word [])) \<subseteq> {x \<in> set tmp. \<not> hit (ts ! x)} \<and>
         distinct (snd (assign ts tmp word [])) \<and>
         mset (map (\<lambda>x. alpha (ts ! x)) (snd (assign ts tmp word []))) \<subseteq># mset word"
  using assms
proof (induction word arbitrary: ts)
  case Nil
  then show ?case by simp
next
  case (Cons w ws)
  show ?case
  proof (cases "first_unused ts tmp w")
    case None
    from Cons.IH [OF Cons.prems] have
      "mset (map (\<lambda>x. alpha (ts ! x)) (snd (assign ts tmp ws []))) \<subseteq># mset (w # ws)"
      by (simp add: subseteq_add_mset)
    with Cons.IH [OF Cons.prems] show ?thesis
      by (simp only: assign_Cons_None [OF None]) simp
  next
    case (Some x)
    let ?ts = "ts[x := (ts ! x)\<lparr>hit := True\<rparr>]"
    let ?new = "snd (assign ?ts tmp ws [])"
    from first_unused_Some [OF Some] have x: "x \<in> set tmp" "alpha (ts ! x) = w" "\<not> hit (ts ! x)"
      by simp_all
    then have xl: "x < length ts" using Cons.prems by simp
    have v: "\<forall>y \<in> set tmp. y < length ?ts" using Cons.prems by simp
    note IH = Cons.IH [OF v]
    note mk = mark_nth [OF xl]
    from IH have len: "length (fst (assign ?ts tmp ws [])) = length ts" by simp
    from IH have sub: "set ?new \<subseteq> {y \<in> set tmp. \<not> hit (?ts ! y)}" by simp
    then have sub': "set ?new \<subseteq> {y \<in> set tmp. \<not> hit (ts ! y)}" and xn: "x \<notin> set ?new"
      by (auto simp: mk)
    from IH have nth: "\<forall>y. fst (assign ?ts tmp ws []) ! y =
               (?ts ! y)\<lparr>hit := hit (?ts ! y) \<or> y \<in> set ?new\<rparr>" by simp
    have nth': "\<forall>y. fst (assign ?ts tmp ws []) ! y =
               (ts ! y)\<lparr>hit := hit (ts ! y) \<or> y \<in> set (x # ?new)\<rparr>"
    proof
      fix y
      show "fst (assign ?ts tmp ws []) ! y = (ts ! y)\<lparr>hit := hit (ts ! y) \<or> y \<in> set (x # ?new)\<rparr>"
        by (simp add: nth [rule_format] mk)
    qed
    from IH have "distinct ?new" by simp
    with xn have dist: "distinct (x # ?new)" by simp
    have al: "map (\<lambda>y. alpha (?ts ! y)) ?new = map (\<lambda>y. alpha (ts ! y)) ?new"
      by (simp add: mk)
    from IH have "mset (map (\<lambda>y. alpha (?ts ! y)) ?new) \<subseteq># mset ws" by simp
    then have ms: "mset (map (\<lambda>y. alpha (ts ! y)) (x # ?new)) \<subseteq># mset (w # ws)"
      by (simp add: al x(2))
    from len nth' sub' x dist ms show ?thesis
      by (simp only: assign_Cons_Some [OF Some] fst_conv snd_conv) simp
  qed
qed

lemma filter_mset_remove:
  assumes "distinct tmp" "x \<in> set tmp" "P x"
  shows "filter_mset (\<lambda>y. P y \<and> y \<noteq> x) (mset tmp) = filter_mset P (mset tmp) - {#x#}"
proof -
  have c: "count (mset tmp) x = 1"
    using assms(1,2) by (simp add: distinct_count_atmost_1)
  show ?thesis
    by (rule multiset_eqI) (use c assms(3) in auto)
qed

lemma unused_letters_mark:
  assumes "distinct tmp" "x \<in> set tmp" "\<not> hit (ts ! x)" "\<forall>y \<in> set tmp. y < length ts"
  shows "unused_letters (ts[x := (ts ! x)\<lparr>hit := True\<rparr>]) tmp =
           unused_letters ts tmp - {#alpha (ts ! x)#}"
proof -
  let ?ts = "ts[x := (ts ! x)\<lparr>hit := True\<rparr>]"
  have xl: "x < length ts" using assms(2,4) by simp
  note mk = mark_nth [OF xl]
  have "filter_mset (\<lambda>y. \<not> hit (?ts ! y)) (mset tmp) =
        filter_mset (\<lambda>y. \<not> hit (ts ! y) \<and> y \<noteq> x) (mset tmp)"
    by (simp add: mk)
  also have "\<dots> = filter_mset (\<lambda>y. \<not> hit (ts ! y)) (mset tmp) - {#x#}"
    using assms(1-3) by (rule filter_mset_remove)
  finally have f: "filter_mset (\<lambda>y. \<not> hit (?ts ! y)) (mset tmp) =
        filter_mset (\<lambda>y. \<not> hit (ts ! y)) (mset tmp) - {#x#}" .
  have xin: "{#x#} \<subseteq># filter_mset (\<lambda>y. \<not> hit (ts ! y)) (mset tmp)"
    using assms(2,3) by simp
  have "(\<lambda>y. alpha (?ts ! y)) = (\<lambda>y. alpha (ts ! y))"
    by (simp add: mk fun_eq_iff)
  then show ?thesis
    unfolding unused_letters_def f
    by (simp add: image_mset_Diff [OF xin])
qed

lemma first_unused_exists:
  assumes "w \<in># unused_letters ts tmp"
  shows "\<exists>x. first_unused ts tmp w = Some x"
proof -
  from assms obtain x where "x \<in> set tmp" "\<not> hit (ts ! x)" "alpha (ts ! x) = w"
    by (auto simp: unused_letters_def)
  then have "first_unused ts tmp w \<noteq> None"
    by (auto simp: first_unused_def find_None_iff)
  then show ?thesis by auto
qed

text \<open>When every letter of the word finds a tile, the loop selects one tile for each
  letter, and each is the first tile of the wheel with that letter that is neither used
  before the call nor selected for an earlier letter.\<close>

lemma assign_greedy:
  assumes "\<forall>x \<in> set tmp. x < length ts" "distinct tmp"
    and "mset word \<subseteq># unused_letters ts tmp"
  shows "length (snd (assign ts tmp word [])) = length word \<and>
         (\<forall>j < length word.
            find (\<lambda>x. alpha (ts ! x) = word ! j \<and> \<not> hit (ts ! x) \<and>
                       x \<notin> set (take j (snd (assign ts tmp word [])))) tmp
              = Some (snd (assign ts tmp word []) ! j))"
  using assms
proof (induction word arbitrary: ts)
  case Nil
  then show ?case by simp
next
  case (Cons w ws)
  have "w \<in># unused_letters ts tmp"
    using Cons.prems(3) by (simp add: insert_subset_eq_iff)
  then obtain x where Some: "first_unused ts tmp w = Some x"
    using first_unused_exists by blast
  let ?ts = "ts[x := (ts ! x)\<lparr>hit := True\<rparr>]"
  let ?new = "snd (assign ?ts tmp ws [])"
  from first_unused_Some [OF Some] have x: "x \<in> set tmp" "alpha (ts ! x) = w" "\<not> hit (ts ! x)"
    by simp_all
  then have xl: "x < length ts" using Cons.prems by simp
  note mk = mark_nth [OF xl]
  have v: "\<forall>y \<in> set tmp. y < length ?ts" using Cons.prems by simp
  have "mset ws \<subseteq># unused_letters ts tmp - {#w#}"
    using Cons.prems(3) by (simp add: insert_subset_eq_iff)
  then have m: "mset ws \<subseteq># unused_letters ?ts tmp"
    by (simp add: unused_letters_mark [OF Cons.prems(2) x(1,3) Cons.prems(1)] x(2))
  note IH = Cons.IH [OF v Cons.prems(2) m]
  have new: "snd (assign ts tmp (w # ws) []) = x # ?new"
    by (simp only: assign_Cons_Some [OF Some] snd_conv)
  have len: "length (snd (assign ts tmp (w # ws) [])) = length (w # ws)"
    using IH by (simp only: new) simp
  have fnd: "find (\<lambda>y. alpha (ts ! y) = (w # ws) ! j \<and> \<not> hit (ts ! y) \<and>
                       y \<notin> set (take j (x # ?new))) tmp = Some ((x # ?new) ! j)"
    if j: "j < length (w # ws)" for j
  proof (cases j)
    case 0
    then show ?thesis using Some by (simp add: first_unused_def)
  next
    case (Suc k)
    with j have k: "k < length ws" by simp
    from IH k have "find (\<lambda>y. alpha (?ts ! y) = ws ! k \<and> \<not> hit (?ts ! y) \<and>
                       y \<notin> set (take k ?new)) tmp = Some (?new ! k)" by simp
    moreover have "find (\<lambda>y. alpha (ts ! y) = (w # ws) ! j \<and> \<not> hit (ts ! y) \<and>
                       y \<notin> set (take j (x # ?new))) tmp =
          find (\<lambda>y. alpha (?ts ! y) = ws ! k \<and> \<not> hit (?ts ! y) \<and>
                       y \<notin> set (take k ?new)) tmp"
      by (rule find_cong) (auto simp: Suc mk)
    ultimately show ?thesis by (simp add: Suc)
  qed
  show ?case
    using len fnd by (simp only: new) simp
qed

lemma reset_hits_nth:
  assumes "\<forall>x \<in> set refs. x < length ts"
  shows "length (reset_hits ts refs) = length ts \<and>
         (\<forall>y. reset_hits ts refs ! y = (if y \<in> set refs then (ts ! y)\<lparr>hit := False\<rparr> else ts ! y))"
  using assms unfolding reset_hits_def
proof (induction refs arbitrary: ts)
  case Nil
  then show ?case by simp
next
  case (Cons x refs)
  let ?ts = "ts[x := (ts ! x)\<lparr>hit := False\<rparr>]"
  have xl: "x < length ts" using Cons.prems by simp
  have v: "\<forall>y \<in> set refs. y < length ?ts" using Cons.prems by simp
  have n: "?ts ! y = (if y = x then (ts ! y)\<lparr>hit := False\<rparr> else ts ! y)" for y
    using xl by simp
  from Cons.IH [OF v] show ?case
    by (simp add: n)
qed

lemma hit_down: "\<not> hit t \<Longrightarrow> t\<lparr>hit := False\<rparr> = t"
  by (cases t) simp

lemma deselect_fields:
  "tiles (deselect self) = tiles self" "paths (deselect self) = paths self"
  "wheel (deselect self) = wheel self" "view (deselect self) = view self"
  "emitted (deselect self) = emitted self" "last_path_highlighted (deselect self) = None"
  "scene (deselect self) =
     (case last_path_highlighted self of None \<Rightarrow> scene self
      | Some p \<Rightarrow> removeAll (PathRef p) (scene self))"
  by (simp_all add: deselect_def split: option.splits)

lemma deselect_if:
  "(if last_path_highlighted self \<noteq> None then deselect self else self) = deselect self"
  by (simp add: deselect_def)

lemma unused_letters_loaded:
  "loaded self tmp \<Longrightarrow> unused_letters (tiles self) tmp = mset (spelled self tmp)"
proof -
  assume "loaded self tmp"
  then have "\<forall>x \<in># mset tmp. \<not> hit (tiles self ! x)" by (simp add: loaded_def)
  then have "filter_mset (\<lambda>x. \<not> hit (tiles self ! x)) (mset tmp) = mset tmp"
    by (simp add: filter_mset_eq_conv)
  then show ?thesis by (simp add: unused_letters_def spelled_def)
qed


lemma word_path_loaded:
  assumes "loaded self tmp"
  shows "snd (assign (tiles self) tmp word []) = [] \<Longrightarrow>
           word_path self word = Inl (IndexError, deselect self)"
    and "snd (assign (tiles self) tmp word []) \<noteq> [] \<Longrightarrow>
           word_path self word =
             Inr (highlighted (deselect self) (snd (assign (tiles self) tmp word [])))"
proof -
  let ?ts = "tiles self"
  let ?ts' = "fst (assign ?ts tmp word [])"
  let ?sel = "snd (assign ?ts tmp word [])"
  from assms have wh: "wheel self = Some tmp"
    and v: "\<forall>x \<in> set tmp. x < length ?ts"
    and nh: "\<forall>x \<in> set tmp. \<not> hit (?ts ! x)"
    and off: "\<forall>x \<in> set tmp. offset_xy (?ts ! x) \<noteq> None"
    by (simp_all add: loaded_def)
  note fr = assign_frame [OF v, of word]
  from fr have len: "length ?ts' = length ?ts"
    and nth: "\<And>y. ?ts' ! y = (?ts ! y)\<lparr>hit := hit (?ts ! y) \<or> y \<in> set ?sel\<rparr>"
    and sub: "set ?sel \<subseteq> set tmp"
    by auto
  {
    assume e: "?sel = []"
    have "?ts' = ?ts"
      by (rule nth_equalityI) (simp_all add: len nth e)
    then have "(deselect self)\<lparr>tiles := ?ts'\<rparr> = deselect self"
      by (simp add: deselect_fields)
    then show "word_path self word = Inl (IndexError, deselect self)"
      unfolding word_path_def deselect_if Let_def
      by (simp add: deselect_fields wh case_prod_beta e)
  }
  {
    assume ne: "?sel \<noteq> []"
    then obtain s0 rest where sel: "?sel = s0 # rest" by (cases ?sel) auto
    have offs: "\<forall>x \<in> set ?sel. offset_xy (?ts' ! x) = offset_xy (?ts ! x) \<and> offset_xy (?ts ! x) \<noteq> None"
      using sub off by (auto simp: nth)
    then obtain p0 where p0: "offset_xy (?ts' ! s0) = Some p0" and p0': "offset_xy (?ts ! s0) = Some p0"
      by (auto simp: sel)
    have "\<forall>t \<in> set (map (\<lambda>x. ?ts' ! x) rest). offset_xy t \<noteq> None"
      using offs by (simp add: sel)
    from line_to_all_placed [OF this]
    have lt: "line_to_all (map (\<lambda>x. ?ts' ! x) rest) = Inr (map lineTo (anchors ?ts rest))"
      using offs by (simp add: sel anchors_def comp_def)
    have poly: "moveTo p0 # map lineTo (anchors ?ts rest) = polyline (anchors ?ts ?sel)"
      by (simp add: sel anchors_def p0')
    have rs: "reset_hits ?ts' tmp = ?ts"
    proof (rule nth_equalityI)
      have v': "\<forall>x \<in> set tmp. x < length ?ts'" using v len by simp
      show l: "length (reset_hits ?ts' tmp) = length ?ts"
        using reset_hits_nth [OF v'] len by simp
      fix y assume "y < length (reset_hits ?ts' tmp)"
      show "reset_hits ?ts' tmp ! y = ?ts ! y"
      proof (cases "y \<in> set tmp")
        case True
        then have "reset_hits ?ts' tmp ! y = (?ts ! y)\<lparr>hit := False\<rparr>"
          using reset_hits_nth [OF v'] by (simp add: nth)
        then show ?thesis using nh True by (simp add: hit_down)
      next
        case False
        then have "y \<notin> set ?sel" using sub by auto
        then show ?thesis using reset_hits_nth [OF v'] False by (simp add: nth)
      qed
    qed
    show "word_path self word = Inr (highlighted (deselect self) ?sel)"
      unfolding word_path_def deselect_if Let_def highlighted_def
      by (simp add: deselect_fields wh case_prod_beta rs p0 [unfolded sel] lt poly sel)
  }
qed

lemma distinct_mset_subseteq:
  assumes "distinct xs" "set xs \<subseteq> set ys"
  shows "mset xs \<subseteq># mset ys"
proof (rule mset_subset_eqI)
  fix a
  show "count (mset xs) a \<le> count (mset ys) a"
  proof (cases "a \<in> set xs")
    case True
    then have "count (mset xs) a = 1" using assms(1) by (simp add: distinct_count_atmost_1)
    moreover have "a \<in># mset ys" using True assms(2) by auto
    then have "1 \<le> count (mset ys) a" by (simp only: count_greater_eq_one_iff)
    ultimately show ?thesis by simp
  next
    case False
    then have "a \<notin># mset xs" by simp
    then have "count (mset xs) a = 0" by (simp only: not_in_iff)
    then show ?thesis by (simp only: le0)
  qed
qed


text \<open>The selection of the assignment loop on a loaded wheel.\<close>

lemma assign_loaded:
  assumes "loaded self tmp"
  shows "distinct (snd (assign (tiles self) tmp word []))"
    and "set (snd (assign (tiles self) tmp word [])) \<subseteq> set tmp"
    and "mset (spelled self (snd (assign (tiles self) tmp word []))) \<subseteq># mset word"
    and "mset (spelled self (snd (assign (tiles self) tmp word []))) \<subseteq># mset (spelled self tmp)"
    and "\<forall>x \<in> set tmp. hit (fst (assign (tiles self) tmp word []) ! x)
            \<longleftrightarrow> x \<in> set (snd (assign (tiles self) tmp word []))"
proof -
  let ?sel = "snd (assign (tiles self) tmp word [])"
  from assms have v: "\<forall>x \<in> set tmp. x < length (tiles self)"
    and nh: "\<forall>x \<in> set tmp. \<not> hit (tiles self ! x)" by (simp_all add: loaded_def)
  note fr = assign_frame [OF v, of word]
  from fr show d: "distinct ?sel" by simp
  from fr show s: "set ?sel \<subseteq> set tmp" by auto
  from fr show "mset (spelled self ?sel) \<subseteq># mset word" by (simp add: spelled_def)
  from distinct_mset_subseteq [OF d s]
  have "image_mset (\<lambda>x. alpha (tiles self ! x)) (mset ?sel)
          \<subseteq># image_mset (\<lambda>x. alpha (tiles self ! x)) (mset tmp)"
    by (rule image_mset_subseteq_mono)
  then show "mset (spelled self ?sel) \<subseteq># mset (spelled self tmp)"
    by (simp add: spelled_def)
  from fr have "\<And>y. fst (assign (tiles self) tmp word []) ! y =
               (tiles self ! y)\<lparr>hit := hit (tiles self ! y) \<or> y \<in> set ?sel\<rparr>" by simp
  then show "\<forall>x \<in> set tmp. hit (fst (assign (tiles self) tmp word []) ! x) \<longleftrightarrow> x \<in> set ?sel"
    using nh by simp
qed


lemma assign_matched:
  assumes "loaded self tmp" "mset word \<subseteq># mset (spelled self tmp)"
  shows "length (snd (assign (tiles self) tmp word [])) = length word"
    and "spelled self (snd (assign (tiles self) tmp word [])) = word"
    and "\<forall>j < length word.
            find (\<lambda>x. alpha (tiles self ! x) = word ! j \<and>
                       x \<notin> set (take j (snd (assign (tiles self) tmp word [])))) tmp
              = Some (snd (assign (tiles self) tmp word []) ! j)"
proof -
  let ?sel = "snd (assign (tiles self) tmp word [])"
  from assms(1) have v: "\<forall>x \<in> set tmp. x < length (tiles self)" and d: "distinct tmp"
    and nh: "\<forall>x \<in> set tmp. \<not> hit (tiles self ! x)" by (simp_all add: loaded_def)
  have m: "mset word \<subseteq># unused_letters (tiles self) tmp"
    using assms(2) by (simp add: unused_letters_loaded [OF assms(1)])
  note g = assign_greedy [OF v d m]
  from g show len: "length ?sel = length word" by simp
  have fnd: "find (\<lambda>x. alpha (tiles self ! x) = word ! j \<and> x \<notin> set (take j ?sel)) tmp = Some (?sel ! j)"
    if j: "j < length word" for j
  proof -
    have "find (\<lambda>x. alpha (tiles self ! x) = word ! j \<and> x \<notin> set (take j ?sel)) tmp =
          find (\<lambda>x. alpha (tiles self ! x) = word ! j \<and> \<not> hit (tiles self ! x) \<and>
                     x \<notin> set (take j ?sel)) tmp"
      by (rule find_cong) (use nh in auto)
    with g j show ?thesis by simp
  qed
  then show "\<forall>j < length word.
      find (\<lambda>x. alpha (tiles self ! x) = word ! j \<and> x \<notin> set (take j ?sel)) tmp = Some (?sel ! j)"
    by simp
  show "spelled self ?sel = word"
  proof (rule nth_equalityI)
    show "length (spelled self ?sel) = length word" by (simp add: spelled_def len)
  next
    fix j assume "j < length (spelled self ?sel)"
    then have j: "j < length word" by (simp add: spelled_def len)
    from fnd [OF j] have "alpha (tiles self ! (?sel ! j)) = word ! j"
      by (auto simp: find_Some_iff)
    then show "spelled self ?sel ! j = word ! j" using j by (simp add: spelled_def len)
  qed
qed

text \<open>Claim C2. On every loaded wheel and for every word whose letters can all be matched
  one to one against the tiles, the loop of \<^verbatim>\<open>word_path\<close> selects one tile for each
  letter of the word, in order: the \<open>j\<close>-th selected tile is the first tile, in the order of
  the wheel, that carries the \<open>j\<close>-th letter and was not selected for an earlier letter,
  and the loop marks exactly the selected tiles as used. The selected tiles are distinct
  tiles of the wheel and spell the word. For a non-empty word \<^verbatim>\<open>word_path\<close> returns, with
  the replay highlight drawn through the anchors of the selected tiles.\<close>

theorem word_path_assigns_greedily:
  assumes "loaded self tmp" and "mset word \<subseteq># mset (spelled self tmp)"
  shows "\<exists>sel. snd (assign (tiles self) tmp word []) = sel \<and>
           length sel = length word \<and> distinct sel \<and> set sel \<subseteq> set tmp \<and>
           spelled self sel = word \<and>
           (\<forall>j < length word.
              find (\<lambda>x. alpha (tiles self ! x) = word ! j \<and> x \<notin> set (take j sel)) tmp
                = Some (sel ! j)) \<and>
           (\<forall>x \<in> set tmp. hit (fst (assign (tiles self) tmp word []) ! x) \<longleftrightarrow> x \<in> set sel) \<and>
           (word \<noteq> [] \<longrightarrow> word_path self word = Inr (highlighted (deselect self) sel))"
proof -
  let ?sel = "snd (assign (tiles self) tmp word [])"
  note a = assign_loaded [OF assms(1), of word]
  note m = assign_matched [OF assms]
  have "word \<noteq> [] \<longrightarrow> word_path self word = Inr (highlighted (deselect self) ?sel)"
  proof
    assume "word \<noteq> []"
    then have "?sel \<noteq> []" using m(1) by auto
    then show "word_path self word = Inr (highlighted (deselect self) ?sel)"
      by (rule word_path_loaded(2) [OF assms(1)])
  qed
  with a(1,2,5) m show ?thesis by blast
qed

lemma area0_word:
  assumes "w \<noteq> []" "set w \<subseteq> set alphabet"
  shows "loaded (state_of (make_word area0 w)) [0 ..< length w]"
    and "spelled (state_of (make_word area0 w)) [0 ..< length w] = w"
    and "view (state_of (make_word area0 w)) = LetterAreaView_init"
    and "last_path_highlighted (state_of (make_word area0 w)) = None"
    and "scene (state_of (make_word area0 w)) = map TileRef [0 ..< length w] @ [PathRef 0]"
    and "length (paths (state_of (make_word area0 w))) = 1"
    and "emitted (state_of (make_word area0 w)) = []"
    and "placed (state_of (make_word area0 w))"
    and "length (tiles (state_of (make_word area0 w))) = length w"
  using make_word_loaded [OF make_word_area0 [OF assms]]
  by (simp_all add: area0_fields)

lemma spelled_nth:
  "spelled self [0 ..< n] = w \<Longrightarrow> k < n \<Longrightarrow> alpha (tiles self ! k) = w ! k"
proof -
  assume a: "spelled self [0 ..< n] = w" and k: "k < n"
  have "spelled self [0 ..< n] ! k = alpha (tiles self ! k)"
    using k by (simp add: spelled_def)
  with a show ?thesis by simp
qed

lemma wheel_TRACTOR_fields:
  "loaded wheel_TRACTOR [0 ..< 7]" "spelled wheel_TRACTOR [0 ..< 7] = ''TRACTOR''"
  "last_path_highlighted wheel_TRACTOR = None" "length (paths wheel_TRACTOR) = 1"
  "view wheel_TRACTOR = LetterAreaView_init"
proof -
  have ne: "''TRACTOR'' \<noteq> []" and sub: "set ''TRACTOR'' \<subseteq> set alphabet"
    and len: "length ''TRACTOR'' = 7"
    by (simp_all add: alphabet_def)
  note w = area0_word [OF ne sub, unfolded len, folded wheel_TRACTOR_def]
  show "loaded wheel_TRACTOR [0 ..< 7]" by (rule w(1))
  show "spelled wheel_TRACTOR [0 ..< 7] = ''TRACTOR''" by (rule w(2))
  show "last_path_highlighted wheel_TRACTOR = None" by (rule w(4))
  show "length (paths wheel_TRACTOR) = 1" by (rule w(6))
  show "view wheel_TRACTOR = LetterAreaView_init" by (rule w(3))
qed


lemma wheel_CAT_upt: "loaded wheel_CAT [0 ..< 3]" "spelled wheel_CAT [0 ..< 3] = ''CAT''"
proof -
  have ne: "''CAT'' \<noteq> []" and sub: "set ''CAT'' \<subseteq> set alphabet"
    and len: "length ''CAT'' = 3"
    by (simp_all add: alphabet_def)
  note w = area0_word [OF ne sub, unfolded len, folded wheel_CAT_def]
  show "loaded wheel_CAT [0 ..< 3]" by (rule w(1))
  show "spelled wheel_CAT [0 ..< 3] = ''CAT''" by (rule w(2))
qed

theorem word_path_assigns_greedily_witness:
  "loaded wheel_TRACTOR [0 ..< 7] \<and>
   mset ''CAT'' \<subseteq># mset (spelled wheel_TRACTOR [0 ..< 7]) \<and>
   snd (assign (tiles wheel_TRACTOR) [0 ..< 7] ''CAT'' []) = [3, 2, 0] \<and>
   distinct [3, 2, 0::nat] \<and>
   word_path wheel_TRACTOR ''CAT'' = Inr (highlighted (deselect wheel_TRACTOR) [3, 2, 0])"
proof -
  note f = wheel_TRACTOR_fields
  have m: "mset ''CAT'' \<subseteq># mset (spelled wheel_TRACTOR [0 ..< 7])"
    by (simp add: f(2))
  have al: "\<And>k. k < 7 \<Longrightarrow> alpha (tiles wheel_TRACTOR ! k) = ''TRACTOR'' ! k"
    using spelled_nth [OF f(2)] by simp
  from word_path_assigns_greedily [OF f(1) m]
  obtain sel where a: "snd (assign (tiles wheel_TRACTOR) [0 ..< 7] ''CAT'' []) = sel"
    and l: "length sel = length ''CAT''"
    and fnd: "\<forall>j < length ''CAT''.
              find (\<lambda>x. alpha (tiles wheel_TRACTOR ! x) = ''CAT'' ! j \<and> x \<notin> set (take j sel)) [0 ..< 7]
                = Some (sel ! j)"
    and wp: "''CAT'' \<noteq> [] \<longrightarrow> word_path wheel_TRACTOR ''CAT'' = Inr (highlighted (deselect wheel_TRACTOR) sel)"
    by blast
  from l obtain a0 a1 a2 where sel: "sel = [a0, a1, a2]"
    by (cases sel; simp) (metis length_0_conv length_Suc_conv)
  have u: "[0 ..< 7] = [0, 1, 2, 3, 4, 5, 6::nat]"
    by (simp add: upt_rec)
  from fnd [rule_format, of 0] have 0: "a0 = 3"
    by (simp add: sel u al)
  from fnd [rule_format, of 1] have 1: "a1 = 2"
    by (simp add: sel u al 0)
  from fnd [rule_format, of 2] have 2: "a2 = 0"
    by (simp add: sel u al 0 1)
  from a wp f(1) m show ?thesis by (simp add: sel 0 1 2)
qed





subsection \<open>Dismissing a replay highlight\<close>

lemma wheel_CAT_deselect: "deselect wheel_CAT = wheel_CAT"
  by (simp add: deselect_def wheel_CAT_fields)

lemma wheel_CAT_highlighted:
  "wheel_CAT_highlighted =
     highlighted wheel_CAT (snd (assign (tiles wheel_CAT) [0 ..< 3] ''CAT'' []))"
proof -
  have m: "mset ''CAT'' \<subseteq># mset (spelled wheel_CAT [0 ..< 3])"
    by (simp add: wheel_CAT_upt(2))
  from assign_matched(1) [OF wheel_CAT_upt(1) m]
  have "snd (assign (tiles wheel_CAT) [0 ..< 3] ''CAT'' []) \<noteq> []" by auto
  from word_path_loaded(2) [OF wheel_CAT_upt(1) this]
  show ?thesis by (simp add: wheel_CAT_highlighted_def state_of_def wheel_CAT_deselect)
qed

lemma wheel_CAT_highlighted_fields:
  "has_highlighted (view wheel_CAT_highlighted)"
  "last_path_highlighted wheel_CAT_highlighted = Some 1"
  "scene wheel_CAT_highlighted = scene wheel_CAT @ [PathRef 1]"
  "selected_widgets_list (view wheel_CAT_highlighted) = []"
  "selected_widgets_set (view wheel_CAT_highlighted) = {}"
  "emitted wheel_CAT_highlighted = []"
  "\<not> mouse_pressed (view wheel_CAT_highlighted)"
  by (simp_all add: wheel_CAT_highlighted highlighted_def wheel_CAT_fields LetterAreaView_init_def)

text \<open>Claim C5. Whenever a replay highlight is showing (the flag of the view is up and the
  widget holds the path item of the highlight), a press on any item or on none removes the
  highlight from the scene and leaves the tracker idle, the button state down and the flag
  down; the selection is as it was and no tile-entered signal is emitted, so no selection
  begins with this press, and moves that follow it change nothing. The next press on a tile
  starts a drag with that tile as the selection. The slot of \<^verbatim>\<open>clearHighlight\<close> is
  \<^verbatim>\<open>deselect\<close>.\<close>

theorem press_dismisses_highlight:
  assumes "has_highlighted (view self)" and "last_path_highlighted self = Some p"
  shows "\<exists>self'. mousePressEvent deselect self widget = self' \<and>
           scene self' = removeAll (PathRef p) (scene self) \<and>
           PathRef p \<notin> set (scene self') \<and>
           last_path_highlighted self' = None \<and>
           \<not> has_highlighted (view self') \<and>
           \<not> mouse_pressed (view self') \<and>
           selected_widgets_list (view self') = selected_widgets_list (view self) \<and>
           selected_widgets_set (view self') = selected_widgets_set (view self) \<and>
           tiles self' = tiles self \<and>
           emitted self' = emitted self @ [clearHighlight True] \<and>
           (\<forall>widgets. moves self' widgets = Inr self') \<and>
           (\<forall>w. w \<notin> selected_widgets_set (view self) \<longrightarrow>
              mouse_pressed (view (mousePressEvent deselect self' (Some (TileRef w)))) \<and>
              selected_widgets_list (view (mousePressEvent deselect self' (Some (TileRef w)))) = [w] \<and>
              emitted (mousePressEvent deselect self' (Some (TileRef w))) =
                emitted self' @ [mouseOverWidget w])"
proof -
  let ?s = "(deselect self)\<lparr> view := (view self)\<lparr>has_highlighted := False, mouse_pressed := False\<rparr>,
                             emitted := emitted self @ [clearHighlight True] \<rparr>"
  have p: "mousePressEvent deselect self widget = ?s" using assms(1) by (rule press_dismiss)
  have m: "\<forall>widgets. moves ?s widgets = Inr ?s"
    by (simp add: moves_not_pressed)
  have n: "\<forall>w. w \<notin> selected_widgets_set (view self) \<longrightarrow>
              mouse_pressed (view (mousePressEvent deselect ?s (Some (TileRef w)))) \<and>
              selected_widgets_list (view (mousePressEvent deselect ?s (Some (TileRef w)))) = [w] \<and>
              emitted (mousePressEvent deselect ?s (Some (TileRef w))) =
                emitted ?s @ [mouseOverWidget w]"
    by (simp add: press_tile)
  have "scene ?s = removeAll (PathRef p) (scene self)"
    "last_path_highlighted ?s = None" "tiles ?s = tiles self"
    by (simp_all add: deselect_fields assms(2))
  with m n show ?thesis
    by (simp add: p)
qed

theorem press_dismisses_highlight_witness:
  "has_highlighted (view wheel_CAT_highlighted) \<and>
   last_path_highlighted wheel_CAT_highlighted = Some 1 \<and>
   scene wheel_CAT_highlighted = [TileRef 0, TileRef 1, TileRef 2, PathRef 0, PathRef 1] \<and>
   scene (mousePressEvent deselect wheel_CAT_highlighted (Some (TileRef 2))) =
     [TileRef 0, TileRef 1, TileRef 2, PathRef 0] \<and>
   selected_widgets_list (view (mousePressEvent deselect wheel_CAT_highlighted (Some (TileRef 2)))) = [] \<and>
   \<not> mouse_pressed (view (mousePressEvent deselect wheel_CAT_highlighted (Some (TileRef 2)))) \<and>
   selected_widgets_list (view (mousePressEvent deselect
      (mousePressEvent deselect wheel_CAT_highlighted (Some (TileRef 2))) (Some (TileRef 2)))) = [2]"
proof -
  note h = wheel_CAT_highlighted_fields
  let ?s = "mousePressEvent deselect wheel_CAT_highlighted (Some (TileRef 2))"
  from press_dismisses_highlight [OF h(1,2), of "Some (TileRef 2)"]
  have 1: "scene ?s = removeAll (PathRef 1) (scene wheel_CAT_highlighted)"
    and 2: "selected_widgets_list (view ?s) = selected_widgets_list (view wheel_CAT_highlighted)"
    and 3: "\<not> mouse_pressed (view ?s)"
    and 4: "\<forall>w. w \<notin> selected_widgets_set (view wheel_CAT_highlighted) \<longrightarrow>
              selected_widgets_list (view (mousePressEvent deselect ?s (Some (TileRef w)))) = [w]"
    by simp_all
  have sc: "scene wheel_CAT_highlighted = [TileRef 0, TileRef 1, TileRef 2, PathRef 0, PathRef 1]"
    by (simp add: h(3) wheel_CAT_fields)
  from 1 have s1: "scene ?s = [TileRef 0, TileRef 1, TileRef 2, PathRef 0]"
    by (simp add: sc)
  from 2 have s2: "selected_widgets_list (view ?s) = []" by (simp add: h(4))
  from 4 have s4: "selected_widgets_list (view (mousePressEvent deselect ?s (Some (TileRef 2)))) = [2]"
    by (simp add: h(5))
  from h(1,2) sc s1 s2 3 s4 show ?thesis by blast
qed

subsection \<open>The live path of a drag\<close>

lemma distinct_visits_snoc:
  "distinct sel \<Longrightarrow> distinct_visits (sel @ [w]) = (if w \<in> set sel then sel else sel @ [w])"
  by (simp add: distinct_visits_def distinct_remdups_id)

lemma move_step:
  assumes "dragging self"
    and "\<forall>w \<in> set (over_tiles [widget]). offset_xy (tiles self ! w) \<noteq> None"
  shows "\<exists>s0. mouseMoveEvent self widget = Inr (drawn s0 (selected_widgets_list (view s0))) \<and>
           selected_widgets_list (view s0) =
             distinct_visits (selected_widgets_list (view self) @ over_tiles [widget]) \<and>
           dragging s0 \<and> tiles s0 = tiles self \<and> paths s0 = paths self \<and>
           scene s0 = scene self \<and> paint_path (view s0) = paint_path (view self)"
proof -
  let ?sel = "selected_widgets_list (view self)"
  from assms(1) have pressed: "mouse_pressed (view self)"
    and sset: "selected_widgets_set (view self) = set ?sel"
    and dist: "distinct ?sel"
    and anch: "\<forall>x \<in> set ?sel. offset_xy (tiles self ! x) \<noteq> None"
    by (simp_all add: dragging_def)
  consider (off) "over_tiles [widget] = []"
    | (seen) w where "widget = Some (TileRef w)" "w \<in> set ?sel"
    | (new) w where "widget = Some (TileRef w)" "w \<notin> set ?sel"
  proof (cases widget)
    case None
    then show ?thesis using that(1) by simp
  next
    case (Some item)
    then show ?thesis using that by (cases item) auto
  qed
  then show ?thesis
  proof cases
    case off
    have "mouseMoveEvent self widget = Inr (drawn self ?sel)"
      using move_draws [OF pressed anch] off by simp
    then show ?thesis using assms(1) off dist
      by (intro exI [of _ self]) (simp add: distinct_visits_id)
  next
    case seen
    have "mouseMoveEvent self widget = Inr (drawn self ?sel)"
      using move_draws [OF pressed anch] seen sset by simp
    then show ?thesis using assms(1) seen dist
      by (intro exI [of _ self]) (simp add: distinct_visits_snoc)
  next
    case new
    let ?s0 = "self\<lparr> view := (view self)\<lparr>
                                 selected_widgets_list := ?sel @ [w],
                                 selected_widgets_set := insert w (selected_widgets_set (view self)) \<rparr>,
                             emitted := emitted self @ [mouseOverWidget w] \<rparr>"
    have aw: "offset_xy (tiles self ! w) \<noteq> None"
      using assms(2) new by simp
    have m: "mouseMoveEvent self widget = Inr (drawn ?s0 (?sel @ [w]))"
      using move_enters [OF pressed anch aw] new sset by simp
    have d: "dragging ?s0"
      using assms(1) aw new(2) by (auto simp: dragging_def)
    show ?thesis using m d new dist
      by (intro exI [of _ ?s0]) (simp add: distinct_visits_snoc)
  qed
qed

lemma green_paths_drawn:
  assumes "scene_ok self" "1 < length sel"
  shows "green_paths (drawn self sel) = green_paths self @ [PathRef (length (paths self))]"
    and "scene_ok (drawn self sel)"
proof -
  let ?q = "\<lparr> item_path = paint_path (view self) @ polyline (anchors (tiles self) sel),
               pen_color = Qt_green, pen_width = 3 \<rparr>"
  have "is_green_path (paths self @ [?q]) item = is_green_path (paths self) item"
    if "item \<in> set (scene self)" for item
  proof (cases item)
    case (TileRef w)
    then show ?thesis by simp
  next
    case (PathRef p)
    with that assms(1) have "p < length (paths self)" by (simp add: scene_ok_def)
    then show ?thesis by (simp add: PathRef nth_append)
  qed
  then have "filter (is_green_path (paths self @ [?q])) (scene self) =
             filter (is_green_path (paths self)) (scene self)"
    by (auto intro: filter_cong)
  then show "green_paths (drawn self sel) = green_paths self @ [PathRef (length (paths self))]"
    using assms(2) by (simp add: green_paths_def drawn_def)
  show "scene_ok (drawn self sel)"
    using assms by (auto simp: scene_ok_def drawn_def less_Suc_eq)
qed

lemma dragging_drawn: "dragging self \<Longrightarrow> dragging (drawn self sel)"
  by (simp add: dragging_def drawn_view drawn_tiles)

text \<open>A move of a drag that leaves at least two tiles selected.\<close>

lemma move_adds_green_path:
  assumes "dragging self" and "scene_ok self"
    and "\<forall>w \<in> set (over_tiles [widget]). offset_xy (tiles self ! w) \<noteq> None"
    and "2 \<le> length (distinct_visits (selected_widgets_list (view self) @ over_tiles [widget]))"
  shows "\<exists>self'. mouseMoveEvent self widget = Inr self' \<and>
           selected_widgets_list (view self') =
             distinct_visits (selected_widgets_list (view self) @ over_tiles [widget]) \<and>
           paint_path (view self') =
             paint_path (view self) @ polyline (anchors (tiles self) (selected_widgets_list (view self'))) \<and>
           paths self' = paths self @
             [\<lparr> item_path = paint_path (view self'), pen_color = Qt_green, pen_width = 3 \<rparr>] \<and>
           scene self' = scene self @ [PathRef (length (paths self))] \<and>
           green_paths self' = green_paths self @ [PathRef (length (paths self))] \<and>
           dragging self' \<and> scene_ok self' \<and>
           (\<forall>x. offset_xy (tiles self' ! x) = offset_xy (tiles self ! x))"
proof -
  from move_step [OF assms(1,3)] obtain s0 where
    m: "mouseMoveEvent self widget = Inr (drawn s0 (selected_widgets_list (view s0)))"
    and l: "selected_widgets_list (view s0) =
             distinct_visits (selected_widgets_list (view self) @ over_tiles [widget])"
    and d: "dragging s0" and t: "tiles s0 = tiles self" and p: "paths s0 = paths self"
    and s: "scene s0 = scene self" and pp: "paint_path (view s0) = paint_path (view self)"
    by blast
  let ?sel = "selected_widgets_list (view s0)"
  let ?s = "drawn s0 ?sel"
  have two: "1 < length ?sel" using assms(4) l by simp
  have ok0: "scene_ok s0" using assms(2) by (simp add: scene_ok_def p s)
  have g0: "green_paths s0 = green_paths self" by (simp add: green_paths_def p s)
  note g = green_paths_drawn [OF ok0 two]
  have "selected_widgets_list (view ?s) = ?sel" by (simp add: drawn_view)
  moreover have "paint_path (view ?s) = paint_path (view self) @ polyline (anchors (tiles self) ?sel)"
    using two by (simp add: drawn_def pp t)
  moreover have "paths ?s = paths self @
             [\<lparr> item_path = paint_path (view ?s), pen_color = Qt_green, pen_width = 3 \<rparr>]"
    using two by (simp add: drawn_def p)
  moreover have "scene ?s = scene self @ [PathRef (length (paths self))]"
    using two by (simp add: drawn_def p s)
  moreover have "green_paths ?s = green_paths self @ [PathRef (length (paths self))]"
    using g(1) by (simp add: g0 p)
  moreover have "dragging ?s" using d by (rule dragging_drawn)
  moreover have "\<forall>x. offset_xy (tiles ?s ! x) = offset_xy (tiles self ! x)"
    by (simp add: drawn_tiles t)
  ultimately show ?thesis using m l g(2) by simp
qed

text \<open>Claim C4, as amended. During a drag, every move that leaves at least two tiles
  selected appends the polyline through the anchors of the selected tiles to the paint path
  of the view, and adds to the scene a new green path item holding the whole paint path.
  The path items of earlier moves stay on the scene, so the number of green path items
  grows by one with each such move; the release removes them all.\<close>

theorem move_accumulates_live_paths:
  assumes "dragging self" and "scene_ok self"
    and "\<forall>w \<in> set (over_tiles [widget]). offset_xy (tiles self ! w) \<noteq> None"
    and "2 \<le> length (distinct_visits (selected_widgets_list (view self) @ over_tiles [widget]))"
  shows "\<exists>self'. mouseMoveEvent self widget = Inr self' \<and>
           selected_widgets_list (view self') =
             distinct_visits (selected_widgets_list (view self) @ over_tiles [widget]) \<and>
           paint_path (view self') =
             paint_path (view self) @ polyline (anchors (tiles self) (selected_widgets_list (view self'))) \<and>
           paths self' = paths self @
             [\<lparr> item_path = paint_path (view self'), pen_color = Qt_green, pen_width = 3 \<rparr>] \<and>
           scene self' = scene self @ [PathRef (length (paths self))] \<and>
           green_paths self' = green_paths self @ [PathRef (length (paths self))] \<and>
           green_paths (mouseReleaseEvent self') = []"
proof -
  from move_adds_green_path [OF assms] obtain self' where
    "mouseMoveEvent self widget = Inr self'"
    "selected_widgets_list (view self') =
             distinct_visits (selected_widgets_list (view self) @ over_tiles [widget])"
    "paint_path (view self') =
             paint_path (view self) @ polyline (anchors (tiles self) (selected_widgets_list (view self')))"
    "paths self' = paths self @
             [\<lparr> item_path = paint_path (view self'), pen_color = Qt_green, pen_width = 3 \<rparr>]"
    "scene self' = scene self @ [PathRef (length (paths self))]"
    "green_paths self' = green_paths self @ [PathRef (length (paths self))]"
    by blast
  then show ?thesis using mouseReleaseEvent_no_green by blast
qed

lemma wheel_CAT_pressed:
  "dragging (mousePressEvent deselect wheel_CAT (Some (TileRef 0)))"
  "scene_ok (mousePressEvent deselect wheel_CAT (Some (TileRef 0)))"
  "green_paths (mousePressEvent deselect wheel_CAT (Some (TileRef 0))) = []"
  "selected_widgets_list (view (mousePressEvent deselect wheel_CAT (Some (TileRef 0)))) = [0]"
  "scene (mousePressEvent deselect wheel_CAT (Some (TileRef 0))) =
      [TileRef 0, TileRef 1, TileRef 2, PathRef 0]"
  "length (paths (mousePressEvent deselect wheel_CAT (Some (TileRef 0)))) = 1"
  "\<forall>x < 3. offset_xy (tiles (mousePressEvent deselect wheel_CAT (Some (TileRef 0))) ! x) \<noteq> None"
proof -
  let ?s = "mousePressEvent deselect wheel_CAT (Some (TileRef 0))"
  have p: "?s = wheel_CAT\<lparr> view := (view wheel_CAT)\<lparr> mouse_pressed := True, paint_path := [],
                                      selected_widgets_set := {0}, selected_widgets_list := [0] \<rparr>,
                 emitted := emitted wheel_CAT @ [mouseOverWidget 0] \<rparr>"
    by (rule press_tile) (simp_all add: wheel_CAT_fields LetterAreaView_init_def)
  have off: "\<forall>x < 3. offset_xy (tiles wheel_CAT ! x) \<noteq> None"
    using wheel_CAT_fields(5,6) by (simp add: placed_def)
  show "dragging ?s" using off by (simp add: p dragging_def)
  show "scene_ok ?s" by (auto simp: p scene_ok_def wheel_CAT_fields)
  show "green_paths ?s = []" by (simp add: p green_paths_def wheel_CAT_fields)
  show "selected_widgets_list (view ?s) = [0]" by (simp add: p)
  show "scene ?s = [TileRef 0, TileRef 1, TileRef 2, PathRef 0]" by (simp add: p wheel_CAT_fields)
  show "length (paths ?s) = 1" by (simp add: p wheel_CAT_fields)
  show "\<forall>x < 3. offset_xy (tiles ?s ! x) \<noteq> None" using off by (simp add: p)
qed

theorem move_accumulates_live_paths_witness:
  "dragging (mousePressEvent deselect wheel_CAT (Some (TileRef 0))) \<and>
   scene_ok (mousePressEvent deselect wheel_CAT (Some (TileRef 0))) \<and>
   over_tiles [Some (TileRef 2)] = [2] \<and>
   offset_xy (tiles (mousePressEvent deselect wheel_CAT (Some (TileRef 0))) ! 2) \<noteq> None \<and>
   (\<exists>self'. mouseMoveEvent (mousePressEvent deselect wheel_CAT (Some (TileRef 0))) (Some (TileRef 2))
               = Inr self' \<and>
      selected_widgets_list (view self') = [0, 2] \<and>
      scene self' = [TileRef 0, TileRef 1, TileRef 2, PathRef 0, PathRef 1] \<and>
      green_paths self' = [PathRef 1])"
proof -
  let ?s = "mousePressEvent deselect wheel_CAT (Some (TileRef 0))"
  note w = wheel_CAT_pressed
  have o: "over_tiles [Some (TileRef 2)] = [2]" by simp
  have a: "offset_xy (tiles ?s ! 2) \<noteq> None" using w(7) by simp
  have h3: "\<forall>w \<in> set (over_tiles [Some (TileRef 2)]). offset_xy (tiles ?s ! w) \<noteq> None"
    using a by simp
  have v: "distinct_visits (selected_widgets_list (view ?s) @ over_tiles [Some (TileRef 2)]) = [0, 2]"
    by (simp add: w(4) distinct_visits_def)
  have h4: "2 \<le> length (distinct_visits (selected_widgets_list (view ?s) @ over_tiles [Some (TileRef 2)]))"
    by (simp only: v) simp
  from move_accumulates_live_paths [OF w(1,2) h3 h4] obtain self' where
    m: "mouseMoveEvent ?s (Some (TileRef 2)) = Inr self'"
    and l: "selected_widgets_list (view self') =
             distinct_visits (selected_widgets_list (view ?s) @ over_tiles [Some (TileRef 2)])"
    and sc: "scene self' = scene ?s @ [PathRef (length (paths ?s))]"
    and g: "green_paths self' = green_paths ?s @ [PathRef (length (paths ?s))]"
    by blast
  from l have l': "selected_widgets_list (view self') = [0, 2]" by (simp only: v)
  from sc have sc': "scene self' = [TileRef 0, TileRef 1, TileRef 2, PathRef 0, PathRef 1]"
    by (simp add: w(5,6))
  from g have g': "green_paths self' = [PathRef 1]" by (simp add: w(3,6))
  from w(1,2) o a m l' sc' g' show ?thesis by blast
qed

text \<open>Claim C4 as stated fails: after a press on the first tile and moves over the second
  and the third, two green path items are on the scene.\<close>

theorem two_live_paths_on_scene:
  "green_paths (state_of (moves (mousePressEvent deselect wheel_CAT (Some (TileRef 0)))
                            [Some (TileRef 1), Some (TileRef 2)]))
     = [PathRef 1, PathRef 2]"
proof -
  let ?s = "mousePressEvent deselect wheel_CAT (Some (TileRef 0))"
  note w = wheel_CAT_pressed
  have a1: "\<forall>w \<in> set (over_tiles [Some (TileRef 1)]). offset_xy (tiles ?s ! w) \<noteq> None"
    using w(7) by simp
  have v1: "distinct_visits (selected_widgets_list (view ?s) @ over_tiles [Some (TileRef 1)]) = [0, 1]"
    by (simp add: w(4) distinct_visits_def)
  have h1: "2 \<le> length (distinct_visits (selected_widgets_list (view ?s) @ over_tiles [Some (TileRef 1)]))"
    by (simp only: v1) simp
  from move_adds_green_path [OF w(1,2) a1 h1] obtain s1 where
    m1: "mouseMoveEvent ?s (Some (TileRef 1)) = Inr s1"
    and l1: "selected_widgets_list (view s1) =
             distinct_visits (selected_widgets_list (view ?s) @ over_tiles [Some (TileRef 1)])"
    and p1: "paths s1 = paths ?s @
             [\<lparr> item_path = paint_path (view s1), pen_color = Qt_green, pen_width = 3 \<rparr>]"
    and g1: "green_paths s1 = green_paths ?s @ [PathRef (length (paths ?s))]"
    and d1: "dragging s1" and ok1: "scene_ok s1"
    and o1: "\<forall>x. offset_xy (tiles s1 ! x) = offset_xy (tiles ?s ! x)"
    by blast
  have len1: "length (paths s1) = 2" by (simp add: p1 w(6))
  have a2: "\<forall>w \<in> set (over_tiles [Some (TileRef 2)]). offset_xy (tiles s1 ! w) \<noteq> None"
    using w(7) by (simp add: o1)
  have l1v: "selected_widgets_list (view s1) = [0, 1]" by (simp only: l1 v1)
  have v2: "distinct_visits (selected_widgets_list (view s1) @ over_tiles [Some (TileRef 2)]) = [0, 1, 2]"
    by (simp add: l1v distinct_visits_def)
  have h2: "2 \<le> length (distinct_visits (selected_widgets_list (view s1) @ over_tiles [Some (TileRef 2)]))"
    by (simp only: v2) simp
  from move_adds_green_path [OF d1 ok1 a2 h2] obtain s2 where
    m2: "mouseMoveEvent s1 (Some (TileRef 2)) = Inr s2"
    and g2: "green_paths s2 = green_paths s1 @ [PathRef (length (paths s1))]"
    by blast
  have mv: "moves ?s [Some (TileRef 1), Some (TileRef 2)] = Inr s2"
    by (simp only: moves.simps m1 m2 sum.case)
  have e: "state_of (moves ?s [Some (TileRef 1), Some (TileRef 2)]) = s2"
    by (simp only: mv state_of_def sum.case)
  have "green_paths s2 = [PathRef 1, PathRef 2]"
    by (simp add: g2 g1 len1 w(3,6))
  then show ?thesis by (simp only: e)
qed

subsection \<open>A word that the wheel cannot match\<close>






subsection \<open>Loading a second word\<close>

lemma scene_tiles_append: "scene_tiles (xs @ ys) = scene_tiles xs @ scene_tiles ys"
  by (induction xs rule: scene_tiles.induct) simp_all

lemma scene_tiles_TileRef: "scene_tiles (map TileRef ws) = ws"
  by (induction ws) simp_all

lemma make_word_keeps:
  assumes mw: "make_word self w = Inr self'"
  shows "wheel self' = Some [length (tiles self) ..< length (tiles self) + length w]"
    and "take (length (tiles self)) (tiles self') = tiles self"
    and "letters self' = letters self"
    and "scene_tiles (scene self') =
           scene_tiles (scene self) @ [length (tiles self) ..< length (tiles self) + length w]"
proof -
  have ne: "w \<noteq> []" using mw by (auto simp: make_word_empty)
  from mw obtain ls0 where
    ml: "make_letters (letters self) (center self) (area_radius self) (length w) 0 w = Inr ls0"
    by (auto simp: make_word_def split: sum.splits)
  note eq = make_word_Inr [OF ml ne, unfolded mw, simplified]
  show "wheel self' = Some [length (tiles self) ..< length (tiles self) + length w]"
    by (subst eq) simp
  show "take (length (tiles self)) (tiles self') = tiles self" by (subst eq) simp
  show "letters self' = letters self" by (subst eq) simp
  show "scene_tiles (scene self') =
           scene_tiles (scene self) @ [length (tiles self) ..< length (tiles self) + length w]"
    by (subst eq) (simp add: scene_tiles_append scene_tiles_TileRef)
qed

lemma make_word_angle:
  assumes mw: "make_word self w = Inr self'" and i: "i < length w"
  shows "angle (tiles self' ! (length (tiles self) + i)) = 2 * pi * real i / real (length w)"
proof -
  have "1 \<le> length w" using i by linarith
  from make_word_wheel [OF this, of self, THEN conjunct2, rule_format, OF mw]
  obtain ws where ws: "wheel self' = Some ws \<and> length ws = length w \<and> distinct ws \<and>
               scene self' = scene self @ map TileRef ws @ [PathRef (length (paths self))] \<and>
               (\<forall>i<length w.
                  ws ! i < length (tiles self') \<and>
                  alpha (tiles self' ! (ws ! i)) = w ! i \<and>
                  idx (tiles self' ! (ws ! i)) = i \<and>
                  angle (tiles self' ! (ws ! i)) = 2 * pi * real i / real (length w) \<and>
                  0 \<le> angle (tiles self' ! (ws ! i)) \<and>
                  angle (tiles self' ! (ws ! i)) < 2 * pi) \<and>
               (\<forall>i. Suc i < length w \<longrightarrow>
                  angle (tiles self' ! (ws ! Suc i)) - angle (tiles self' ! (ws ! i))
                    = 2 * pi / real (length w)) \<and>
               (\<forall>i<length w. \<forall>j<length w. i \<noteq> j \<longrightarrow>
                  angle (tiles self' ! (ws ! i)) \<noteq> angle (tiles self' ! (ws ! j)))" ..
  from ws have wh: "wheel self' = Some ws" by (rule conjunct1)
  from ws have "\<forall>i<length w.
                  ws ! i < length (tiles self') \<and>
                  alpha (tiles self' ! (ws ! i)) = w ! i \<and>
                  idx (tiles self' ! (ws ! i)) = i \<and>
                  angle (tiles self' ! (ws ! i)) = 2 * pi * real i / real (length w) \<and>
                  0 \<le> angle (tiles self' ! (ws ! i)) \<and>
                  angle (tiles self' ! (ws ! i)) < 2 * pi"
    by (elim conjE)
  with i have a: "angle (tiles self' ! (ws ! i)) = 2 * pi * real i / real (length w)" by blast
  from wh make_word_keeps(1) [OF mw]
  have "ws = [length (tiles self) ..< length (tiles self) + length w]" by simp
  then have "ws ! i = length (tiles self) + i" using i by simp
  with a show ?thesis by simp
qed

text \<open>Claim C7, as amended. For every word of length \<open>n \<ge> 1\<close>: \<^verbatim>\<open>make_word\<close> returns
  when every letter has a pixmap, and whenever it returns, it has created exactly \<open>n\<close>
  tiles, which are the wheel and are added to the scene after the tiles that were there;
  the tiles of an earlier load stay in the store and on the scene. Tile \<open>i\<close> of the wheel
  carries the \<open>i\<close>-th letter of the word and the angle \<open>2 \<pi> i / n\<close>, which lies in
  \<open>[0, 2 \<pi>)\<close>; consecutive angles differ by \<open>2 \<pi> / n\<close>, and no two tiles of the wheel
  share an angle. On a scene that held no tile the tiles on the scene are exactly these
  \<open>n\<close>.\<close>

theorem make_word_tiles:
  assumes "1 \<le> length w"
  shows "(set w \<subseteq> dom (letters self) \<longrightarrow> (\<exists>self'. make_word self w = Inr self')) \<and>
         (\<forall>self'. make_word self w = Inr self' \<longrightarrow>
            (\<exists>ws. wheel self' = Some ws \<and> length ws = length w \<and> distinct ws \<and>
               scene self' = scene self @ map TileRef ws @ [PathRef (length (paths self))] \<and>
               (\<forall>i<length w.
                  ws ! i < length (tiles self') \<and>
                  alpha (tiles self' ! (ws ! i)) = w ! i \<and>
                  idx (tiles self' ! (ws ! i)) = i \<and>
                  angle (tiles self' ! (ws ! i)) = 2 * pi * real i / real (length w) \<and>
                  0 \<le> angle (tiles self' ! (ws ! i)) \<and>
                  angle (tiles self' ! (ws ! i)) < 2 * pi) \<and>
               (\<forall>i. Suc i < length w \<longrightarrow>
                  angle (tiles self' ! (ws ! Suc i)) - angle (tiles self' ! (ws ! i))
                    = 2 * pi / real (length w)) \<and>
               (\<forall>i<length w. \<forall>j<length w. i \<noteq> j \<longrightarrow>
                  angle (tiles self' ! (ws ! i)) \<noteq> angle (tiles self' ! (ws ! j))))) \<and>
         (\<forall>self'. make_word self w = Inr self' \<longrightarrow>
            wheel self' = Some [length (tiles self) ..< length (tiles self) + length w] \<and>
            take (length (tiles self)) (tiles self') = tiles self \<and>
            length (tiles self') = length (tiles self) + length w \<and>
            scene_tiles (scene self') =
              scene_tiles (scene self) @ [length (tiles self) ..< length (tiles self) + length w] \<and>
            (scene_tiles (scene self) = [] \<longrightarrow>
               wheel self' = Some (scene_tiles (scene self')) \<and>
               length (scene_tiles (scene self')) = length w))"
proof (intro conjI)
  from make_word_wheel [OF assms, of self]
  show "set w \<subseteq> dom (letters self) \<longrightarrow> (\<exists>self'. make_word self w = Inr self')"
    by (rule conjunct1)
  from make_word_wheel [OF assms, of self]
  show "\<forall>self'. make_word self w = Inr self' \<longrightarrow>
            (\<exists>ws. wheel self' = Some ws \<and> length ws = length w \<and> distinct ws \<and>
               scene self' = scene self @ map TileRef ws @ [PathRef (length (paths self))] \<and>
               (\<forall>i<length w.
                  ws ! i < length (tiles self') \<and>
                  alpha (tiles self' ! (ws ! i)) = w ! i \<and>
                  idx (tiles self' ! (ws ! i)) = i \<and>
                  angle (tiles self' ! (ws ! i)) = 2 * pi * real i / real (length w) \<and>
                  0 \<le> angle (tiles self' ! (ws ! i)) \<and>
                  angle (tiles self' ! (ws ! i)) < 2 * pi) \<and>
               (\<forall>i. Suc i < length w \<longrightarrow>
                  angle (tiles self' ! (ws ! Suc i)) - angle (tiles self' ! (ws ! i))
                    = 2 * pi / real (length w)) \<and>
               (\<forall>i<length w. \<forall>j<length w. i \<noteq> j \<longrightarrow>
                  angle (tiles self' ! (ws ! i)) \<noteq> angle (tiles self' ! (ws ! j))))"
    by (rule conjunct2)
  show "\<forall>self'. make_word self w = Inr self' \<longrightarrow>
            wheel self' = Some [length (tiles self) ..< length (tiles self) + length w] \<and>
            take (length (tiles self)) (tiles self') = tiles self \<and>
            length (tiles self') = length (tiles self) + length w \<and>
            scene_tiles (scene self') =
              scene_tiles (scene self) @ [length (tiles self) ..< length (tiles self) + length w] \<and>
            (scene_tiles (scene self) = [] \<longrightarrow>
               wheel self' = Some (scene_tiles (scene self')) \<and>
               length (scene_tiles (scene self')) = length w)"
  proof (intro allI impI)
    fix self'
    assume mw: "make_word self w = Inr self'"
    note k = make_word_keeps [OF mw]
    note l = make_word_loaded(5) [OF mw]
    show "wheel self' = Some [length (tiles self) ..< length (tiles self) + length w] \<and>
            take (length (tiles self)) (tiles self') = tiles self \<and>
            length (tiles self') = length (tiles self) + length w \<and>
            scene_tiles (scene self') =
              scene_tiles (scene self) @ [length (tiles self) ..< length (tiles self) + length w] \<and>
            (scene_tiles (scene self) = [] \<longrightarrow>
               wheel self' = Some (scene_tiles (scene self')) \<and>
               length (scene_tiles (scene self')) = length w)"
      using k(1,2,4) l by simp
  qed
qed

lemma wheel_CAT_PIZZA:
  "make_word wheel_CAT ''PIZZA'' = Inr wheel_CAT_PIZZA"
proof -
  have "letters wheel_CAT = letters area0"
    using make_word_keeps(3) [OF wheel_CAT] .
  then have "set ''PIZZA'' \<subseteq> dom (letters wheel_CAT)"
    by (simp add: letters_area0 alphabet_def)
  moreover have "1 \<le> length ''PIZZA''" by simp
  ultimately obtain self' where "make_word wheel_CAT ''PIZZA'' = Inr self'"
    using make_word_wheel [of "''PIZZA''" wheel_CAT] by blast
  then show ?thesis by (simp add: wheel_CAT_PIZZA_def state_of_def)
qed

text \<open>Claim C7 as stated fails on a widget that had a word loaded before: after CAT and
  then PIZZA, a word of 5 letters, 8 tiles are on the scene, and the tiles 0 and 3 have the
  same angle.\<close>

theorem second_load_keeps_tiles:
  "scene_tiles (scene wheel_CAT_PIZZA) = [0, 1, 2, 3, 4, 5, 6, 7] \<and>
   wheel wheel_CAT_PIZZA = Some [3, 4, 5, 6, 7] \<and>
   angle (tiles wheel_CAT_PIZZA ! 0) = 0 \<and>
   angle (tiles wheel_CAT_PIZZA ! 3) = 0"
proof -
  note k = make_word_keeps [OF wheel_CAT_PIZZA]
  have l3: "length (tiles wheel_CAT) = 3" by (rule wheel_CAT_fields(5))
  have u: "[3 ..< 8] = [3, 4, 5, 6, 7::nat]" by (simp add: upt_rec)
  have st: "scene_tiles (scene wheel_CAT) = [0, 1, 2]"
    by (simp add: wheel_CAT_fields)
  have 1: "scene_tiles (scene wheel_CAT_PIZZA) = [0, 1, 2, 3, 4, 5, 6, 7]"
    using k(4) by (simp add: l3 u st)
  have 2: "wheel wheel_CAT_PIZZA = Some [3, 4, 5, 6, 7]"
    using k(1) by (simp add: l3 u)
  from make_word_angle [OF wheel_CAT, of 0]
  have a0: "angle (tiles wheel_CAT ! 0) = 0" by (simp add: area0_fields)
  have "tiles wheel_CAT_PIZZA ! 0 = take (length (tiles wheel_CAT)) (tiles wheel_CAT_PIZZA) ! 0"
    by (simp add: l3)
  then have 3: "angle (tiles wheel_CAT_PIZZA ! 0) = 0"
    by (simp add: k(2) a0)
  from make_word_angle [OF wheel_CAT_PIZZA, of 0]
  have 4: "angle (tiles wheel_CAT_PIZZA ! 3) = 0" by (simp add: l3)
  from 1 2 3 4 show ?thesis by blast
qed

theorem make_word_tiles_witness:
  "1 \<le> length ''CAT'' \<and> set ''CAT'' \<subseteq> dom (letters area0) \<and> scene_tiles (scene area0) = [] \<and>
   (\<exists>self'. make_word area0 ''CAT'' = Inr self' \<and>
      (\<exists>ws. wheel self' = Some ws \<and> length ws = 3 \<and>
         scene_tiles (scene self') = ws \<and>
         alpha (tiles self' ! (ws ! 1)) = CHR ''A'' \<and>
         angle (tiles self' ! (ws ! 1)) = 2 * pi * 1 / 3 \<and>
         angle (tiles self' ! (ws ! 0)) \<noteq> angle (tiles self' ! (ws ! 2))))"
proof -
  have len: "1 \<le> length ''CAT''" by simp
  have sub: "set ''CAT'' \<subseteq> dom (letters area0)"
    by (simp add: letters_area0 alphabet_def)
  have em: "scene_tiles (scene area0) = []" by (simp add: area0_fields)
  note T = make_word_tiles [OF len, of area0]
  from T [THEN conjunct1, rule_format, OF sub]
  obtain self' where mw: "make_word area0 ''CAT'' = Inr self'" ..
  from T [THEN conjunct2, THEN conjunct1, rule_format, OF mw]
  obtain ws where ws: "wheel self' = Some ws \<and> length ws = length ''CAT'' \<and> distinct ws \<and>
               scene self' = scene area0 @ map TileRef ws @ [PathRef (length (paths area0))] \<and>
               (\<forall>i<length ''CAT''.
                  ws ! i < length (tiles self') \<and>
                  alpha (tiles self' ! (ws ! i)) = ''CAT'' ! i \<and>
                  idx (tiles self' ! (ws ! i)) = i \<and>
                  angle (tiles self' ! (ws ! i)) = 2 * pi * real i / real (length ''CAT'') \<and>
                  0 \<le> angle (tiles self' ! (ws ! i)) \<and>
                  angle (tiles self' ! (ws ! i)) < 2 * pi) \<and>
               (\<forall>i. Suc i < length ''CAT'' \<longrightarrow>
                  angle (tiles self' ! (ws ! Suc i)) - angle (tiles self' ! (ws ! i))
                    = 2 * pi / real (length ''CAT'')) \<and>
               (\<forall>i<length ''CAT''. \<forall>j<length ''CAT''. i \<noteq> j \<longrightarrow>
                  angle (tiles self' ! (ws ! i)) \<noteq> angle (tiles self' ! (ws ! j)))" ..
  from T [THEN conjunct2, THEN conjunct2, rule_format, OF mw]
  have "scene_tiles (scene area0) = [] \<longrightarrow> wheel self' = Some (scene_tiles (scene self')) \<and>
               length (scene_tiles (scene self')) = length ''CAT''"
    by (elim conjE)
  with em have sc: "wheel self' = Some (scene_tiles (scene self'))" by blast
  from ws have 1: "wheel self' = Some ws" and 2: "length ws = 3" by simp_all
  from sc 1 have 6: "scene_tiles (scene self') = ws" by simp
  from ws have "alpha (tiles self' ! (ws ! 1)) = ''CAT'' ! 1 \<and>
      angle (tiles self' ! (ws ! 1)) = 2 * pi * real 1 / real (length ''CAT'')"
    by simp
  then have 3: "alpha (tiles self' ! (ws ! 1)) = CHR ''A''"
    and 4: "angle (tiles self' ! (ws ! 1)) = 2 * pi * 1 / 3" by simp_all
  from ws have "\<forall>i<length ''CAT''. \<forall>j<length ''CAT''. i \<noteq> j \<longrightarrow>
                  angle (tiles self' ! (ws ! i)) \<noteq> angle (tiles self' ! (ws ! j))"
    by (elim conjE)
  then have 5: "angle (tiles self' ! (ws ! 0)) \<noteq> angle (tiles self' ! (ws ! 2))" by simp
  from len sub em mw 1 2 6 3 4 5 show ?thesis by blast
qed

subsection \<open>A press on no tile\<close>

text \<open>A press on no tile sets the button state all the same: the moves that follow select
  the tiles they pass over.\<close>

lemma off_tile_press_arms_drag:
  assumes "\<not> has_highlighted (view self)" and "over_tiles [widget] = []"
    and "selected_widgets_list (view self) = []" and "selected_widgets_set (view self) = {}"
    and "\<forall>w \<in> set (over_tiles widgets). offset_xy (tiles self ! w) \<noteq> None"
  shows "\<exists>self'. moves (mousePressEvent slot self widget) widgets = Inr self' \<and>
           selected_widgets_list (view self') = distinct_visits (over_tiles widgets) \<and>
           emitted (mouseReleaseEvent self') =
             emitted self' @ [mouseReleaseProc (spelled self (distinct_visits (over_tiles widgets)))] \<and>
           green_paths (mouseReleaseEvent self') = []"
proof -
  let ?s = "self\<lparr>view := (view self)\<lparr>mouse_pressed := True\<rparr>\<rparr>"
  have p: "mousePressEvent slot self widget = ?s" using assms(1,2) by (rule press_off_tile)
  have d: "dragging ?s" by (simp add: dragging_def assms(3,4))
  have a: "\<forall>w \<in> set (over_tiles widgets). offset_xy (tiles ?s ! w) \<noteq> None"
    using assms(5) by simp
  from moves_dragging [OF d a] obtain self' where
    m: "moves ?s widgets = Inr self'"
    and l: "selected_widgets_list (view self') =
              distinct_visits (selected_widgets_list (view ?s) @ over_tiles widgets)"
    and al: "\<forall>x. alpha (tiles self' ! x) = alpha (tiles ?s ! x)"
    by blast
  have sp: "spelled self' = spelled self"
    using al by (simp add: spelled_def fun_eq_iff)
  from l have l': "selected_widgets_list (view self') = distinct_visits (over_tiles widgets)"
    by (simp add: assms(3))
  from m l' sp show ?thesis
    by (simp add: p mouseReleaseEvent_emitted mouseReleaseEvent_no_green)
qed

text \<open>Claim C10, as amended. Every release emits the word of the current selection and
  leaves no green path item on the scene, also when the press landed on no tile or was
  consumed to dismiss a replay highlight. With nothing selected before the press, the word
  is the empty string after a dismissing press, whatever the moves pass over, and after a
  press on no tile when the moves pass over no tile. A press on no tile still sets the
  button state: the tiles that the moves pass over after it are selected, and the release
  emits their letters.\<close>

theorem release_always_emits:
  "emitted (mouseReleaseEvent self) =
     emitted self @ [mouseReleaseProc (spelled self (selected_widgets_list (view self)))] \<and>
   green_paths (mouseReleaseEvent self) = [] \<and>
   (selected_widgets_list (view self) = [] \<longrightarrow>
      emitted (mouseReleaseEvent self) = emitted self @ [mouseReleaseProc []] \<and>
      (\<not> has_highlighted (view self) \<and> over_tiles (widget # widgets) = [] \<longrightarrow>
         (\<exists>self'. moves (mousePressEvent slot self widget) widgets = Inr self' \<and>
            emitted (mouseReleaseEvent self') = emitted self @ [mouseReleaseProc []] \<and>
            green_paths (mouseReleaseEvent self') = [])) \<and>
      (has_highlighted (view self) \<longrightarrow>
         (\<exists>self'. moves (mousePressEvent deselect self widget) widgets = Inr self' \<and>
            selected_widgets_list (view self') = [] \<and>
            emitted (mouseReleaseEvent self') =
              emitted self @ [clearHighlight True, mouseReleaseProc []] \<and>
            green_paths (mouseReleaseEvent self') = []))) \<and>
   (\<not> has_highlighted (view self) \<and> over_tiles [widget] = [] \<and>
    selected_widgets_list (view self) = [] \<and> selected_widgets_set (view self) = {} \<and>
    (\<forall>w \<in> set (over_tiles widgets). offset_xy (tiles self ! w) \<noteq> None) \<longrightarrow>
      (\<exists>self'. moves (mousePressEvent slot self widget) widgets = Inr self' \<and>
         selected_widgets_list (view self') = distinct_visits (over_tiles widgets) \<and>
         emitted (mouseReleaseEvent self') =
           emitted self' @ [mouseReleaseProc (spelled self (distinct_visits (over_tiles widgets)))] \<and>
         green_paths (mouseReleaseEvent self') = []))"
proof -
  note old = release_after_idle_press [of self widget widgets slot]
  have new: "\<not> has_highlighted (view self) \<and> over_tiles [widget] = [] \<and>
    selected_widgets_list (view self) = [] \<and> selected_widgets_set (view self) = {} \<and>
    (\<forall>w \<in> set (over_tiles widgets). offset_xy (tiles self ! w) \<noteq> None) \<longrightarrow>
      (\<exists>self'. moves (mousePressEvent slot self widget) widgets = Inr self' \<and>
         selected_widgets_list (view self') = distinct_visits (over_tiles widgets) \<and>
         emitted (mouseReleaseEvent self') =
           emitted self' @ [mouseReleaseProc (spelled self (distinct_visits (over_tiles widgets)))] \<and>
         green_paths (mouseReleaseEvent self') = [])"
    using off_tile_press_arms_drag [of self widget widgets slot] by blast
  from old new show ?thesis by (intro conjI) (erule conjE | assumption)+
qed

lemma wheel_CAT_idle:
  "\<not> has_highlighted (view wheel_CAT)" "selected_widgets_list (view wheel_CAT) = []"
  "selected_widgets_set (view wheel_CAT) = {}"
  "\<forall>w \<in> set [1, 2]. offset_xy (tiles wheel_CAT ! w) \<noteq> None"
proof -
  show "\<not> has_highlighted (view wheel_CAT)" "selected_widgets_list (view wheel_CAT) = []"
    "selected_widgets_set (view wheel_CAT) = {}"
    by (simp_all add: wheel_CAT_fields LetterAreaView_init_def)
  have "\<forall>x < 3. offset_xy (tiles wheel_CAT ! x) \<noteq> None"
    using wheel_CAT_fields(5,6) by (simp add: placed_def)
  then show "\<forall>w \<in> set [1, 2]. offset_xy (tiles wheel_CAT ! w) \<noteq> None" by simp
qed

lemma visits_1_2:
  "over_tiles [Some (TileRef 1), Some (TileRef 2)] = [1, 2]"
  "distinct_visits [1, 2] = [1, 2]"
  "spelled wheel_CAT [1, 2] = ''AT''"
  by (simp_all add: distinct_visits_def spelled_def wheel_CAT_alpha)

theorem release_always_emits_witness:
  "selected_widgets_list (view wheel_CAT) = [] \<and> \<not> has_highlighted (view wheel_CAT) \<and>
   over_tiles [None, Some (PathRef 0)] = [] \<and>
   (\<exists>self'. moves (mousePressEvent deselect wheel_CAT None) [Some (PathRef 0)] = Inr self' \<and>
      emitted (mouseReleaseEvent self') = [mouseReleaseProc []]) \<and>
   selected_widgets_list (view wheel_CAT_highlighted) = [] \<and>
   has_highlighted (view wheel_CAT_highlighted) \<and>
   (\<exists>self'. moves (mousePressEvent deselect wheel_CAT_highlighted (Some (TileRef 0)))
               [Some (TileRef 2)] = Inr self' \<and>
      emitted (mouseReleaseEvent self') = [clearHighlight True, mouseReleaseProc []]) \<and>
   over_tiles [None] = [] \<and> selected_widgets_set (view wheel_CAT) = {} \<and>
   over_tiles [Some (TileRef 1), Some (TileRef 2)] = [1, 2] \<and>
   placed wheel_CAT \<and> length (tiles wheel_CAT) = 3 \<and>
   (\<exists>self'. moves (mousePressEvent deselect wheel_CAT None)
               [Some (TileRef 1), Some (TileRef 2)] = Inr self' \<and>
      selected_widgets_list (view self') = [1, 2] \<and>
      emitted (mouseReleaseEvent self') = emitted self' @ [mouseReleaseProc ''AT''])"
proof -
  note h = wheel_CAT_highlighted_fields
  note c = wheel_CAT_idle
  have o: "over_tiles [None, Some (PathRef 0)] = []" by simp
  have on: "over_tiles [None] = []" by simp
  note A = release_always_emits [of wheel_CAT None "[Some (PathRef 0)]" deselect,
      THEN conjunct2, THEN conjunct2, THEN conjunct1, rule_format, OF c(2)]
  from A [THEN conjunct2, THEN conjunct1, rule_format, OF conjI [OF c(1) o]]
  obtain s1 where "moves (mousePressEvent deselect wheel_CAT None) [Some (PathRef 0)] = Inr s1"
    "emitted (mouseReleaseEvent s1) = emitted wheel_CAT @ [mouseReleaseProc []]"
    by blast
  then have 1: "\<exists>self'. moves (mousePressEvent deselect wheel_CAT None) [Some (PathRef 0)] = Inr self' \<and>
      emitted (mouseReleaseEvent self') = [mouseReleaseProc []]"
    by (auto simp: wheel_CAT_fields)
  note B = release_always_emits [of wheel_CAT_highlighted "Some (TileRef 0)" "[Some (TileRef 2)]" deselect,
      THEN conjunct2, THEN conjunct2, THEN conjunct1, rule_format, OF h(4)]
  from B [THEN conjunct2, THEN conjunct2, rule_format, OF h(1)]
  obtain s2 where "moves (mousePressEvent deselect wheel_CAT_highlighted (Some (TileRef 0)))
               [Some (TileRef 2)] = Inr s2"
    "emitted (mouseReleaseEvent s2) = emitted wheel_CAT_highlighted @ [clearHighlight True, mouseReleaseProc []]"
    by blast
  then have 2: "\<exists>self'. moves (mousePressEvent deselect wheel_CAT_highlighted (Some (TileRef 0)))
               [Some (TileRef 2)] = Inr self' \<and>
      emitted (mouseReleaseEvent self') = [clearHighlight True, mouseReleaseProc []]"
    by (auto simp: h(6))
  have an: "\<forall>w \<in> set (over_tiles [Some (TileRef 1), Some (TileRef 2)]).
              offset_xy (tiles wheel_CAT ! w) \<noteq> None"
    using c(4) by (simp only: visits_1_2(1))
  note C = release_always_emits [of wheel_CAT None "[Some (TileRef 1), Some (TileRef 2)]" deselect,
      THEN conjunct2, THEN conjunct2, THEN conjunct2]
  from C c(1) on c(2,3) an
  obtain s3 where m3: "moves (mousePressEvent deselect wheel_CAT None)
               [Some (TileRef 1), Some (TileRef 2)] = Inr s3"
    and l3: "selected_widgets_list (view s3) =
               distinct_visits (over_tiles [Some (TileRef 1), Some (TileRef 2)])"
    and e3: "emitted (mouseReleaseEvent s3) = emitted s3 @
               [mouseReleaseProc (spelled wheel_CAT
                  (distinct_visits (over_tiles [Some (TileRef 1), Some (TileRef 2)])))]"
    by blast
  from l3 have l3': "selected_widgets_list (view s3) = [1, 2]" by (simp only: visits_1_2)
  from e3 have e3': "emitted (mouseReleaseEvent s3) = emitted s3 @ [mouseReleaseProc ''AT'']"
    by (simp only: visits_1_2)
  from m3 l3' e3' have 3: "\<exists>self'. moves (mousePressEvent deselect wheel_CAT None)
               [Some (TileRef 1), Some (TileRef 2)] = Inr self' \<and>
      selected_widgets_list (view self') = [1, 2] \<and>
      emitted (mouseReleaseEvent self') = emitted self' @ [mouseReleaseProc ''AT'']" by blast
  from c(2,1) o 1 h(4,1) 2 on c(3) visits_1_2(1) wheel_CAT_fields(6,5) 3 show ?thesis by blast
qed

text \<open>Claim C10 as stated fails: after a press that landed on no tile and moves over the
  second and the third tile, the release emits the word AT, not the empty string.\<close>

theorem off_tile_press_selects:
  "over_tiles [None] = [] \<and>
   selected_widgets_list (view (state_of (moves (mousePressEvent deselect wheel_CAT None)
                                            [Some (TileRef 1), Some (TileRef 2)]))) = [1, 2] \<and>
   last (emitted (mouseReleaseEvent (state_of (moves (mousePressEvent deselect wheel_CAT None)
                                                 [Some (TileRef 1), Some (TileRef 2)]))))
     = mouseReleaseProc ''AT'' \<and>
   mouseReleaseProc ''AT'' \<noteq> mouseReleaseProc []"
proof -
  note c = wheel_CAT_idle
  have on: "over_tiles [None] = []" by simp
  have an: "\<forall>w \<in> set (over_tiles [Some (TileRef 1), Some (TileRef 2)]).
              offset_xy (tiles wheel_CAT ! w) \<noteq> None"
    using c(4) by (simp only: visits_1_2(1))
  from off_tile_press_arms_drag [OF c(1) on c(2,3) an, of deselect]
  obtain s3 where m3: "moves (mousePressEvent deselect wheel_CAT None)
               [Some (TileRef 1), Some (TileRef 2)] = Inr s3"
    and l3: "selected_widgets_list (view s3) =
               distinct_visits (over_tiles [Some (TileRef 1), Some (TileRef 2)])"
    and e3: "emitted (mouseReleaseEvent s3) = emitted s3 @
               [mouseReleaseProc (spelled wheel_CAT
                  (distinct_visits (over_tiles [Some (TileRef 1), Some (TileRef 2)])))]"
    by blast
  have st: "state_of (moves (mousePressEvent deselect wheel_CAT None)
               [Some (TileRef 1), Some (TileRef 2)]) = s3"
    by (simp only: m3 state_of_def sum.case)
  from l3 have l3': "selected_widgets_list (view s3) = [1, 2]" by (simp only: visits_1_2)
  from e3 have "emitted (mouseReleaseEvent s3) = emitted s3 @ [mouseReleaseProc ''AT'']"
    by (simp only: visits_1_2)
  then have e3': "last (emitted (mouseReleaseEvent s3)) = mouseReleaseProc ''AT''" by simp
  have ne: "mouseReleaseProc ''AT'' \<noteq> mouseReleaseProc []" by simp
  from on l3' e3' ne show ?thesis by (simp only: st) simp
qed

end
